theory Spec2Isabelle
  imports Complex_Main
begin

section \<open>In-memory lockout (per IP)\<close>

text \<open>
  The lockout table of the single-file server: \<^verbatim>\<open>const lockouts = new Map()\<close>, from an
  address to \<^verbatim>\<open>{ attempts, until }\<close>. Times are milliseconds as returned by
  \<^verbatim>\<open>Date.now()\<close>; every call of \<^verbatim>\<open>Date.now()\<close> is an argument of the model.
\<close>

record entry =
  attempts :: int
  until :: int

type_synonym lockouts = "string \<rightharpoonup> entry"

definition MAX_ATTEMPTS :: int where
  "MAX_ATTEMPTS = 3"

definition LOCK_MINUTES :: int where
  "LOCK_MINUTES = 10"

text \<open>The result of \<^verbatim>\<open>checkLockout\<close>: \<^verbatim>\<open>{ locked: false }\<close> or
  \<^verbatim>\<open>{ locked: true, minutesLeft }\<close>.\<close>

datatype lock_result = Unlocked | Locked (minutesLeft: int)

text \<open>\<^verbatim>\<open>Math.ceil(x / 60000)\<close> on an integer number of milliseconds.\<close>

definition ceil_minutes :: "int \<Rightarrow> int" where
  "ceil_minutes x = - ((- x) div 60000)"

text \<open>
  \<^verbatim>\<open>checkLockout(ip)\<close>: no entry, not locked; an entry whose \<^verbatim>\<open>until\<close> is truthy
  (non-zero) and in the future, locked; any other entry is deleted.
\<close>

definition checkLockout :: "lockouts \<Rightarrow> string \<Rightarrow> int \<Rightarrow> lock_result \<times> lockouts" where
  "checkLockout L ip now =
     (case L ip of
        None \<Rightarrow> (Unlocked, L)
      | Some e \<Rightarrow>
          if until e \<noteq> 0 \<and> until e > now
          then (Locked (ceil_minutes (until e - now)), L)
          else (Unlocked, L(ip := None)))"

text \<open>
  \<^verbatim>\<open>registerAttempt(ip, success)\<close>; \<open>now\<close> is the \<^verbatim>\<open>Date.now()\<close> read when the lock is
  set.
\<close>

definition registerAttempt :: "lockouts \<Rightarrow> string \<Rightarrow> bool \<Rightarrow> int \<Rightarrow> lockouts" where
  "registerAttempt L ip success now =
     (let e0 = (case L ip of None \<Rightarrow> \<lparr>attempts = 0, until = 0\<rparr> | Some e \<Rightarrow> e)
      in if success then L(ip := None)
         else
           let e1 = e0\<lparr>attempts := attempts e0 + 1\<rparr>;
               e2 = (if attempts e1 \<ge> MAX_ATTEMPTS
                     then e1\<lparr>until := now + LOCK_MINUTES * 60000, attempts := 0\<rparr>
                     else e1)
           in L(ip \<mapsto> e2))"

subsection \<open>The login route\<close>

text \<open>
  The white space of JavaScript, as removed by \<^verbatim>\<open>String.prototype.trim\<close> and skipped by
  \<^verbatim>\<open>parseInt\<close>, on UTF-16 code units: tab, line feed, vertical tab, form feed, carriage
  return, space, U+00A0, U+1680, U+2000 to U+200A, U+2028, U+2029, U+202F, U+205F, U+3000
  and U+FEFF.
\<close>

definition is_ws :: "nat \<Rightarrow> bool" where
  "is_ws c = (c \<in> {9, 10, 11, 12, 13, 32, 160, 5760, 8232, 8233, 8239, 8287, 12288, 65279}
              \<or> (8192 \<le> c \<and> c \<le> 8202))"

text \<open>
  The value of a request header reaches the handler as Latin-1 text, one \<open>char\<close> for
  each code unit, so a \<open>string\<close> holds it exactly; of the white space above it can
  contain the first seven.
\<close>

definition trim :: "string \<Rightarrow> string" where
  "trim s = rev (dropWhile (\<lambda>c. is_ws (of_char c)) (rev (dropWhile (\<lambda>c. is_ws (of_char c)) s)))"

record login_req =
  x_forwarded_for :: "string option"
  remoteAddress :: "string option"
  username :: "string option"
  password :: "string option"

text \<open>
  \<^verbatim>\<open>req.headers['x-forwarded-for']?.split(',')[0]?.trim() || req.socket.remoteAddress || 'local'\<close>:
  the empty string and an absent value are falsy.
\<close>

definition client_ip :: "login_req \<Rightarrow> string" where
  "client_ip r =
     (let fwd = (case x_forwarded_for r of
                   None \<Rightarrow> []
                 | Some h \<Rightarrow> trim (takeWhile (\<lambda>c. c \<noteq> CHR '','') h));
          sock = (case remoteAddress r of None \<Rightarrow> [] | Some a \<Rightarrow> a)
      in if fwd \<noteq> [] then fwd else if sock \<noteq> [] then sock else ''local'')"

datatype login_body =
    OkTrue
  | InvalidCredentials
  | TooManyAttempts int

datatype 'a reply = Reply (status: nat) (body: 'a)

record session =
  user :: "string option"

definition credentials_ok :: "login_req \<Rightarrow> bool" where
  "credentials_ok r = (username r = Some ''proximus'' \<and> password r = Some ''proximus123'')"

text \<open>
  \<^verbatim>\<open>app.post('/api/login', ...)\<close>. \<open>now\<close> is the clock read by \<^verbatim>\<open>checkLockout\<close>,
  \<open>now'\<close> the one read by \<^verbatim>\<open>registerAttempt\<close>. The result is the response, the table and
  the session after the request.
\<close>

definition login :: "lockouts \<Rightarrow> session \<Rightarrow> int \<Rightarrow> int \<Rightarrow> login_req
                      \<Rightarrow> login_body reply \<times> lockouts \<times> session" where
  "login L s now now' r =
     (let ip = client_ip r;
          (lock, L1) = checkLockout L ip now
      in case lock of
           Locked m \<Rightarrow> (Reply 429 (TooManyAttempts m), L1, s)
         | Unlocked \<Rightarrow>
             let ok = credentials_ok r;
                 L2 = registerAttempt L1 ip ok now'
             in if \<not> ok then (Reply 401 InvalidCredentials, L2, s)
                else (Reply 200 OkTrue, L2, s\<lparr>user := Some ''Proximus Demo User''\<rparr>))"

text \<open>A run of login requests from one client context, in order; each request comes with
  its two clock readings. The result lists the responses, oldest first.\<close>

fun logins :: "lockouts \<Rightarrow> session \<Rightarrow> (int \<times> int \<times> login_req) list
                 \<Rightarrow> login_body reply list \<times> lockouts \<times> session" where
  "logins L s [] = ([], L, s)"
| "logins L s ((now, now', r) # rs) =
     (case login L s now now' r of
        (resp, L', s') \<Rightarrow>
          (case logins L' s' rs of (resps, L'', s'') \<Rightarrow> (resp # resps, L'', s'')))"

section \<open>Auth middleware\<close>

text \<open>
  \<^verbatim>\<open>requireAuth(req, res, next)\<close> of the single-file server: \<^verbatim>\<open>next()\<close> runs only when
  \<^verbatim>\<open>req.session && req.session.user\<close>; otherwise the response is
  \<^verbatim>\<open>res.status(401).json({ error: 'Unauthorized' })\<close> and the route's handler never runs.
  A handler is a function of the world it acts on (timers, listeners, frames written,
  upstream calls) that returns its response and the world after it. A JSON body is either
  \<^verbatim>\<open>{ error: <message> }\<close> or what the route's handler sends.
\<close>

datatype 'a outcome = Error string | Handled 'a

definition authenticated :: "session option \<Rightarrow> bool" where
  "authenticated so = (case so of None \<Rightarrow> False | Some s \<Rightarrow> user s \<noteq> None)"

definition requireAuth :: "session option \<Rightarrow> ('w \<Rightarrow> 'a outcome reply \<times> 'w) \<Rightarrow> 'w
                            \<Rightarrow> 'a outcome reply \<times> 'w" where
  "requireAuth so next w =
     (if authenticated so then next w else (Reply 401 (Error ''Unauthorized''), w))"

section \<open>Dummy SMS dataset\<close>

record sms =
  id_of :: int
  country :: string
  carrier :: string
  status_of :: string
  latency_ms :: int
  message :: string
  timestamp :: int

definition countries :: "string list" where
  "countries = [''US'', ''GB'', ''DE'', ''FR'', ''BR'', ''IN'', ''MX'', ''CO'', ''ES'', ''IT'']"

definition carriers :: "string list" where
  "carriers = [''TeleOne'', ''GlobalTel'', ''SkyMobile'', ''ProNet'']"

definition statuses :: "string list" where
  "statuses = [''DELIVERED'', ''FAILED'', ''BLOCKED'', ''PENDING'']"

text \<open>
  The body of the seeding loop at index \<open>i\<close>. The loop calls \<^verbatim>\<open>Math.random()\<close> five times
  per row; \<open>rnd k\<close> is the value of the \<open>k\<close>-th call (a number in \<open>[0, 1)\<close>) and
  \<open>clock i\<close> the \<^verbatim>\<open>Date.now()\<close> read in iteration \<open>i\<close>. For values in \<open>[0, 1)\<close> every
  index computed here lies within its array. The products are taken over the reals; in
  doubles the product of a value below 1 with one of the factors used here also stays
  below the factor, so the ranges of the floors are the same.
\<close>

definition seed_row :: "(nat \<Rightarrow> real) \<Rightarrow> (nat \<Rightarrow> int) \<Rightarrow> nat \<Rightarrow> sms" where
  "seed_row rnd clock i =
     \<lparr>id_of = int i + 1,
      country = countries ! nat \<lfloor>rnd (5 * i) * real (length countries)\<rfloor>,
      carrier = carriers ! nat \<lfloor>rnd (5 * i + 1) * real (length carriers)\<rfloor>,
      status_of = statuses ! nat \<lfloor>rnd (5 * i + 2) * real (length statuses)\<rfloor>,
      latency_ms = \<lfloor>rnd (5 * i + 3) * 3000\<rfloor> + 100,
      message = ''Hello from Proximus demo'',
      timestamp = clock i - \<lfloor>rnd (5 * i + 4) * (1000 * 60 * 60 * 24 * 7)\<rfloor>\<rparr>"

text \<open>\<^verbatim>\<open>for (let i=0;i<500;i++) arr.push(...)\<close>: the rows in the order of the loop.\<close>

definition smsData :: "(nat \<Rightarrow> real) \<Rightarrow> (nat \<Rightarrow> int) \<Rightarrow> sms list" where
  "smsData rnd clock = map (seed_row rnd clock) [0..<500]"

section \<open>Query parameters\<close>

text \<open>
  A string that a client sends in a query or a body can hold any text: it is the list of
  its UTF-16 code units, as JavaScript has it. \<open>units\<close> gives the code units of an ASCII
  literal of the source.
\<close>

type_synonym ustring = "nat list"

definition units :: "string \<Rightarrow> ustring" where
  "units s = map of_char s"

text \<open>
  \<^verbatim>\<open>String.prototype.toUpperCase\<close>. On a string of ASCII code units the letters \<open>a\<close> to
  \<open>z\<close> go to \<open>A\<close> to \<open>Z\<close> and every other code unit stays. On any other string the
  result comes from the case tables of Unicode, which belong to the runtime: \<open>up\<close> is the
  runtime's function on those strings, a parameter of every definition that uses it.
\<close>

definition upper_unit :: "nat \<Rightarrow> nat" where
  "upper_unit n = (if 97 \<le> n \<and> n \<le> 122 then n - 32 else n)"

definition toUpperCase :: "(ustring \<Rightarrow> ustring) \<Rightarrow> ustring \<Rightarrow> ustring" where
  "toUpperCase up s = (if list_all (\<lambda>c. c < 128) s then map upper_unit s else up s)"

text \<open>A query or body parameter that is a string when present, or a variable of the
  environment; absent and the empty string are falsy.\<close>

definition truthy :: "'a list option \<Rightarrow> bool" where
  "truthy p = (case p of None \<Rightarrow> False | Some s \<Rightarrow> s \<noteq> [])"

text \<open>
  \<^verbatim>\<open>if (country) out = out.filter(r => r.country === String(country).toUpperCase());\<close>
  \<^verbatim>\<open>if (status) out = out.filter(r => r.status === String(status).toUpperCase());\<close>
\<close>

definition apply_filters :: "(ustring \<Rightarrow> ustring) \<Rightarrow> ustring option \<Rightarrow> ustring option
                              \<Rightarrow> sms list \<Rightarrow> sms list" where
  "apply_filters up c st rows =
     (let out1 = (if truthy c
                  then filter (\<lambda>r. units (country r) = toUpperCase up (the c)) rows else rows);
          out2 = (if truthy st
                  then filter (\<lambda>r. units (status_of r) = toUpperCase up (the st)) out1 else out1)
      in out2)"

subsection \<open>\<^verbatim>\<open>parseInt(s, 10)\<close>\<close>

definition is_digit :: "nat \<Rightarrow> bool" where
  "is_digit c = (48 \<le> c \<and> c \<le> 57)"

definition digit_val :: "nat \<Rightarrow> int" where
  "digit_val c = int c - 48"

definition digits_val :: "ustring \<Rightarrow> int" where
  "digits_val ds = foldl (\<lambda>a c. 10 * a + digit_val c) 0 ds"

text \<open>
  Leading white space is skipped, one sign (\<open>-\<close> is 45, \<open>+\<close> is 43) is read, then the
  longest run of decimal digits; what follows is ignored; with no digit the result is
  \<^verbatim>\<open>NaN\<close> (\<open>None\<close>). The integer is exact: where JavaScript would round a long run of digits
  to a double, the value is far above the maximum and far below minus the length of the
  data, and the handlers treat it alike.
\<close>

definition parseInt :: "ustring \<Rightarrow> int option" where
  "parseInt s =
     (let t = dropWhile is_ws s;
          neg = (t \<noteq> [] \<and> hd t = 45);
          u = (if t \<noteq> [] \<and> (hd t = 45 \<or> hd t = 43) then tl t else t);
          ds = takeWhile is_digit u
      in if ds = [] then None
         else Some (if neg then - digits_val ds else digits_val ds))"

text \<open>\<^verbatim>\<open>Math.min(parseInt(limit,10) || 100, max)\<close>: \<^verbatim>\<open>NaN\<close> and \<open>0\<close> are falsy.\<close>

definition limit_of :: "ustring \<Rightarrow> int \<Rightarrow> int" where
  "limit_of limit mx =
     min (case parseInt limit of None \<Rightarrow> 100 | Some n \<Rightarrow> if n = 0 then 100 else n) mx"

text \<open>\<^verbatim>\<open>out.slice(0, lim)\<close>: a negative end counts from the end of the array.\<close>

definition slice0 :: "'a list \<Rightarrow> int \<Rightarrow> 'a list" where
  "slice0 xs n =
     (let len = int (length xs);
          final = (if n < 0 then max (len + n) 0 else min n len)
      in take (nat final) xs)"

record sms_query =
  q_country :: "ustring option"
  q_status :: "ustring option"
  q_limit :: "ustring option"

section \<open>SMS API\<close>

text \<open>
  \<^verbatim>\<open>app.get('/api/sms', requireAuth, ...)\<close> of the single-file server. The destructuring
  default \<^verbatim>\<open>limit = 100\<close> stands for an absent parameter, and \<^verbatim>\<open>parseInt\<close> reads the
  number \<open>100\<close> as the string \<^verbatim>\<open>"100"\<close>.
\<close>

definition sms_handler :: "(ustring \<Rightarrow> ustring) \<Rightarrow> sms list \<Rightarrow> sms_query \<Rightarrow> sms list" where
  "sms_handler up rows q =
     (let limit = (case q_limit q of None \<Rightarrow> units ''100'' | Some l \<Rightarrow> l);
          out = apply_filters up (q_country q) (q_status q) rows;
          n = limit_of limit 500
      in slice0 out n)"

definition api_sms :: "(ustring \<Rightarrow> ustring) \<Rightarrow> sms list \<Rightarrow> session option \<Rightarrow> sms_query \<Rightarrow> 'w
                        \<Rightarrow> sms list outcome reply \<times> 'w" where
  "api_sms up rows so q = requireAuth so (\<lambda>w. (Reply 200 (Handled (sms_handler up rows q)), w))"

text \<open>
  \<^verbatim>\<open>app.get("/api/data", ...)\<close> of \<^verbatim>\<open>server.js\<close>: a session or the configured
  \<^verbatim>\<open>X-API-Key\<close>; an absent \<^verbatim>\<open>limit\<close> reaches \<^verbatim>\<open>parseInt\<close> as \<^verbatim>\<open>undefined\<close>; the maximum
  is 1000. \<open>demo_key\<close> is the environment's \<^verbatim>\<open>DEMO_API_KEY\<close>, \<open>apiKey\<close> the request's
  \<^verbatim>\<open>X-API-Key\<close> header; \<^verbatim>\<open>process.env.X || null\<close> turns an unset or empty variable into
  \<^verbatim>\<open>null\<close>.
\<close>

definition env_or_null :: "string option \<Rightarrow> string option" where
  "env_or_null v = (if truthy v then v else None)"

definition api_data :: "(ustring \<Rightarrow> ustring) \<Rightarrow> string option \<Rightarrow> sms list \<Rightarrow> session option
                         \<Rightarrow> string option \<Rightarrow> sms_query \<Rightarrow> sms list outcome reply" where
  "api_data up demo_key rows so apiKey q =
     (let DEMO_API_KEY = env_or_null demo_key;
          authed = (authenticated so \<or> (DEMO_API_KEY \<noteq> None \<and> apiKey = DEMO_API_KEY))
      in if \<not> authed then Reply 401 (Error ''Unauthorized'')
         else
           let out = apply_filters up (q_country q) (q_status q) rows;
               limit = (case q_limit q of None \<Rightarrow> units ''undefined'' | Some l \<Rightarrow> l);
               n = limit_of limit 1000
           in Reply 200 (Handled (slice0 out n)))"

section \<open>The world the stream and bridge routes act on\<close>

text \<open>
  What the routes below do beyond answering: interval timers set and cleared, \<^verbatim>\<open>'close'\<close>
  listeners registered, frames written to a response, requests sent upstream. \<open>'j\<close> is
  the type of JSON values that are only passed along (the prompt, the upstream's answer).
  The world also keeps the runtime's clock in milliseconds, the next timer handle and
  connection number, and the connections that have emitted \<^verbatim>\<open>'close'\<close> with the time at
  which they did. A listener \<open>(c, h)\<close> stands for \<^verbatim>\<open>() => clearInterval(h)\<close> registered on
  connection \<open>c\<close>.
\<close>

record filters =
  f_country :: "ustring option"
  f_status :: "ustring option"

record 'j mcp_body =
  prompt :: "'j option"
  resource :: "string option"
  filters :: "filters option"

record 'j fetch_request =
  url :: string
  headers :: "(string \<times> string) list"
  payload :: "'j mcp_body"

record timer =
  t_id :: nat
  t_conn :: nat
  t_every :: int
  t_due :: int

text \<open>A frame \<^verbatim>\<open>data: <json>\n\n\<close> written on a connection: the sampled row (if any) with
  its \<^verbatim>\<open>timestamp\<close> replaced, and the fresh \<^verbatim>\<open>id\<close> that replaces the row's.\<close>

record frame =
  fr_conn :: nat
  fr_at :: int
  fr_id :: string
  fr_row :: "sms option"

record 'j world =
  clock :: int
  timers :: "timer list"
  next_timer :: nat
  listeners :: "(nat \<times> nat) list"
  frames :: "frame list"
  next_conn :: nat
  closed :: "(nat \<times> int) list"
  fetched :: "'j fetch_request list"

definition world0 :: "int \<Rightarrow> 'j world" where
  "world0 t0 = \<lparr>clock = t0, timers = [], next_timer = 0, listeners = [], frames = [],
                next_conn = 0, closed = [], fetched = []\<rparr>"

section \<open>SSE stream of random rows\<close>

text \<open>
  \<^verbatim>\<open>const send = () => {...}\<close> on connection \<open>c\<close>: \<open>r\<close> is the value of \<^verbatim>\<open>Math.random()\<close>,
  \<open>uuid\<close> that of \<^verbatim>\<open>crypto.randomUUID()\<close>. An index outside the array reads
  \<^verbatim>\<open>undefined\<close>, whose spread adds no field (\<open>None\<close>).
\<close>

definition send :: "sms list \<Rightarrow> nat \<Rightarrow> real \<Rightarrow> string \<Rightarrow> 'j world \<Rightarrow> 'j world" where
  "send rows c r uuid w =
     (let i = \<lfloor>r * real (length rows)\<rfloor>;
          row = (if 0 \<le> i \<and> i < int (length rows) then Some (rows ! nat i) else None);
          withNow = \<lparr>fr_conn = c, fr_at = clock w, fr_id = uuid,
                     fr_row = map_option (\<lambda>x. x\<lparr>timestamp := clock w\<rparr>) row\<rparr>
      in w\<lparr>frames := withNow # frames w\<rparr>)"

text \<open>
  \<^verbatim>\<open>setInterval(send, 1500)\<close> returns a fresh handle and schedules the first tick one
  interval ahead; \<^verbatim>\<open>clearInterval(h)\<close> removes the timer with that handle;
  \<^verbatim>\<open>req.on('close', () => clearInterval(timer))\<close> registers the listener on the connection.
\<close>

definition setInterval :: "nat \<Rightarrow> int \<Rightarrow> 'j world \<Rightarrow> nat \<times> 'j world" where
  "setInterval c ms w =
     (next_timer w,
      w\<lparr>timers := timers w @ [\<lparr>t_id = next_timer w, t_conn = c, t_every = ms, t_due = clock w + ms\<rparr>],
        next_timer := Suc (next_timer w)\<rparr>)"

definition clearInterval :: "nat \<Rightarrow> 'j world \<Rightarrow> 'j world" where
  "clearInterval h w = w\<lparr>timers := filter (\<lambda>t. t_id t \<noteq> h) (timers w)\<rparr>"

definition on_close :: "nat \<Rightarrow> nat \<Rightarrow> 'j world \<Rightarrow> 'j world" where
  "on_close c h w = w\<lparr>listeners := listeners w @ [(c, h)]\<rparr>"

datatype stream_body = EventStream

definition stream_handler :: "nat \<Rightarrow> 'j world \<Rightarrow> stream_body outcome reply \<times> 'j world" where
  "stream_handler c w =
     (case setInterval c 1500 w of
        (h, w1) \<Rightarrow> (Reply 200 (Handled EventStream), on_close c h w1))"

definition api_sms_stream :: "session option \<Rightarrow> nat \<Rightarrow> 'j world \<Rightarrow> stream_body outcome reply \<times> 'j world" where
  "api_sms_stream so c = requireAuth so (stream_handler c)"

subsection \<open>The runtime's events\<close>

text \<open>
  What the runtime does to the stream route, one event at a time, each after \<open>dt\<close>
  milliseconds: a request arrives on a new connection; a timer that is set and due runs its
  callback and is scheduled again; a connection that exists and has not closed yet emits
  \<^verbatim>\<open>'close'\<close>, which runs its listeners. The runtime runs no cleared timer and emits
  \<^verbatim>\<open>'close'\<close> once.
\<close>

datatype event =
    Open "session option"
  | Fire nat real string
  | Close nat

definition fire :: "sms list \<Rightarrow> nat \<Rightarrow> real \<Rightarrow> string \<Rightarrow> 'j world \<Rightarrow> 'j world" where
  "fire rows h r uuid w =
     (case find (\<lambda>t. t_id t = h) (timers w) of
        None \<Rightarrow> w
      | Some t \<Rightarrow>
          if clock w < t_due t then w
          else
            let w1 = send rows (t_conn t) r uuid w
            in w1\<lparr>timers := map (\<lambda>x. if t_id x = h then x\<lparr>t_due := clock w + t_every x\<rparr> else x)
                               (timers w1)\<rparr>)"

definition emit_close :: "nat \<Rightarrow> 'j world \<Rightarrow> 'j world" where
  "emit_close c w =
     (if c < next_conn w \<and> c \<notin> fst ` set (closed w)
      then (let w1 = foldl (\<lambda>v (c', h). if c' = c then clearInterval h v else v) w (listeners w)
            in w1\<lparr>closed := (c, clock w) # closed w1\<rparr>)
      else w)"

definition step :: "sms list \<Rightarrow> 'j world \<Rightarrow> nat \<times> event \<Rightarrow> 'j world" where
  "step rows w de =
     (let w1 = w\<lparr>clock := clock w + int (fst de)\<rparr>
      in case snd de of
           Open so \<Rightarrow> (snd (api_sms_stream so (next_conn w1) w1))\<lparr>next_conn := Suc (next_conn w1)\<rparr>
         | Fire h r uuid \<Rightarrow> fire rows h r uuid w1
         | Close c \<Rightarrow> emit_close c w1)"

definition run :: "sms list \<Rightarrow> 'j world \<Rightarrow> (nat \<times> event) list \<Rightarrow> 'j world" where
  "run rows w evs = foldl (step rows) w evs"

section \<open>MCP bridge\<close>

text \<open>
  The upstream as the handler sees it: \<^verbatim>\<open>fetch\<close> rejects with an exception, or resolves to
  a response with \<^verbatim>\<open>ok\<close>, the \<^verbatim>\<open>content-type\<close> header, the result of \<^verbatim>\<open>resp.json()\<close> (a
  parse exception or a value) and of \<^verbatim>\<open>resp.text()\<close>.
\<close>

record exn =
  e_name :: string
  e_message :: string

record 'j response =
  ok :: bool
  code :: nat
  content_type :: "string option"
  json :: "exn + 'j"
  text_of :: string

datatype 'j fetch_result = Rejected exn | Resolved "'j response"

text \<open>\<^verbatim>\<open>String(e?.message || e)\<close>: an error with an empty message prints as its name.\<close>

definition exn_text :: "exn \<Rightarrow> string" where
  "exn_text e = (if e_message e \<noteq> [] then e_message e else e_name e)"

text \<open>
  A JavaScript number that results from a division: a finite value, \<^verbatim>\<open>NaN\<close> or an
  infinity. Dividing by zero raises nothing in JavaScript: \<open>0 / 0\<close> is \<^verbatim>\<open>NaN\<close>, and any
  other number divided by zero is an infinity. Finite quotients are taken over the reals.
\<close>

datatype number = Num real | NaN | Infinity | MinusInfinity

definition js_divide :: "real \<Rightarrow> real \<Rightarrow> number" where
  "js_divide a b =
     (if b = 0 then (if a = 0 then NaN else if 0 < a then Infinity else MinusInfinity)
      else Num (a / b))"

record kpis =
  total :: nat
  delivered :: nat
  failed :: nat
  blocked :: nat
  avgLatency :: number

datatype 'j mcp_data = Remote 'j | Kpis kpis | Rows "sms list"

text \<open>\<^verbatim>\<open>{ source, data }\<close> or \<^verbatim>\<open>{ error, details }\<close>.\<close>

datatype 'j mcp_out = Sourced string "'j mcp_data" | BridgeFailed string string

definition bearer :: "string option \<Rightarrow> (string \<times> string) list" where
  "bearer key = (if truthy key then [(''Authorization'', ''Bearer '' @ the key)] else [])"

text \<open>The mock of the single-file server: the aggregation over the filtered rows.\<close>

definition compute_kpis :: "sms list \<Rightarrow> kpis" where
  "compute_kpis out =
     \<lparr>total = length out,
      delivered = length (filter (\<lambda>r. status_of r = ''DELIVERED'') out),
      failed = length (filter (\<lambda>r. status_of r = ''FAILED'') out),
      blocked = length (filter (\<lambda>r. status_of r = ''BLOCKED'') out),
      avgLatency = js_divide (real_of_int (foldl (\<lambda>a b. a + latency_ms b) 0 out))
                             (real (max 1 (length out)))\<rparr>"

definition mock_mcp :: "(ustring \<Rightarrow> ustring) \<Rightarrow> sms list \<Rightarrow> 'j mcp_body \<Rightarrow> 'j mcp_out outcome reply" where
  "mock_mcp up rows b =
     (let c = (case filters b of None \<Rightarrow> None | Some f \<Rightarrow> f_country f);
          st = (case filters b of None \<Rightarrow> None | Some f \<Rightarrow> f_status f);
          out = apply_filters up c st rows
      in if resource b = Some ''kpis''
         then Reply 200 (Handled (Sourced ''mock-mcp'' (Kpis (compute_kpis out))))
         else Reply 200 (Handled (Sourced ''mock-mcp'' (Rows (slice0 out 200)))))"

text \<open>
  \<^verbatim>\<open>app.post('/api/mcp/query', requireAuth, async (req, res) => {...})\<close> of the single-file
  server. \<open>mcp_url\<close> and \<open>mcp_key\<close> are the environment's \<^verbatim>\<open>MCP_URL\<close> and \<^verbatim>\<open>MCP_API_KEY\<close>;
  \<open>upstream\<close> answers a request; \<open>b\<close> is \<^verbatim>\<open>req.body\<close>. Any exception lands in the
  \<^verbatim>\<open>catch\<close>.
\<close>

definition empty_body :: "'j mcp_body" where
  "empty_body = \<lparr>prompt = None, resource = None, filters = None\<rparr>"

definition mcp_handler :: "(ustring \<Rightarrow> ustring) \<Rightarrow> string option \<Rightarrow> string option
     \<Rightarrow> ('j fetch_request \<Rightarrow> 'j fetch_result)
     \<Rightarrow> sms list \<Rightarrow> 'j mcp_body option \<Rightarrow> 'j world \<Rightarrow> 'j mcp_out outcome reply \<times> 'j world" where
  "mcp_handler up mcp_url mcp_key upstream rows b w =
     (let MCP_URL = env_or_null mcp_url;
          MCP_API_KEY = env_or_null mcp_key;
          b1 = (case b of None \<Rightarrow> empty_body | Some x \<Rightarrow> x)
      in case MCP_URL of
           Some u \<Rightarrow>
             (let rq = \<lparr>url = u,
                        headers = (''Content-Type'', ''application/json'') # bearer MCP_API_KEY,
                        payload = \<lparr>prompt = prompt b1, resource = resource b1, filters = filters b1\<rparr>\<rparr>;
                  w1 = w\<lparr>fetched := fetched w @ [rq]\<rparr>
              in case upstream rq of
                   Rejected e \<Rightarrow>
                     (Reply 502 (Handled (BridgeFailed ''MCP bridge failed'' (exn_text e))), w1)
                 | Resolved resp \<Rightarrow>
                     (case json resp of
                        Inl e \<Rightarrow>
                          (Reply 502 (Handled (BridgeFailed ''MCP bridge failed'' (exn_text e))), w1)
                      | Inr d \<Rightarrow>
                          (Reply 200 (Handled (Sourced ''proximus-mcp'' (Remote d))), w1)))
         | None \<Rightarrow> (mock_mcp up rows b1, w))"

definition api_mcp_query :: "(ustring \<Rightarrow> ustring) \<Rightarrow> string option \<Rightarrow> string option
     \<Rightarrow> ('j fetch_request \<Rightarrow> 'j fetch_result)
     \<Rightarrow> sms list \<Rightarrow> session option \<Rightarrow> 'j mcp_body option \<Rightarrow> 'j world
     \<Rightarrow> 'j mcp_out outcome reply \<times> 'j world" where
  "api_mcp_query up mcp_url mcp_key upstream rows so b =
     requireAuth so (mcp_handler up mcp_url mcp_key upstream rows b)"

subsection \<open>The bridge of \<^verbatim>\<open>server.js\<close>\<close>

text \<open>\<^verbatim>\<open>ct.includes("application/json")\<close>.\<close>

definition str_includes :: "string \<Rightarrow> string \<Rightarrow> bool" where
  "str_includes s p = list_ex (\<lambda>i. take (length p) (drop i s) = p) [0..<Suc (length s)]"

text \<open>What \<^verbatim>\<open>JSON.stringify(body)\<close> is applied to on a failed upstream call: the parsed
  JSON, \<^verbatim>\<open>{}\<close> when parsing failed, or the text of the body.\<close>

datatype 'j upstream_body = BodyJson 'j | BodyEmpty | BodyText string

datatype 'j details = Message string | Stringified "'j upstream_body"

text \<open>The response passes the upstream's JSON on as it is, or \<^verbatim>\<open>{ raw: <text> }\<close>, or is
  \<^verbatim>\<open>{ error, details }\<close>.\<close>

datatype 'j bridge_out = Passed 'j | Raw string | BridgeFailure string "'j details"

text \<open>The handler below sends \<^verbatim>\<open>JSON.stringify(req.body || {})\<close> upstream: the body as it
  came, which here has the three fields of \<open>mcp_body\<close>.\<close>

text \<open>\<^verbatim>\<open>requireAuth\<close> of \<^verbatim>\<open>server.js\<close> reads \<^verbatim>\<open>req.session.user\<close>; the session middleware
  always provides \<^verbatim>\<open>req.session\<close>.\<close>

definition requireAuth_srv :: "session \<Rightarrow> ('w \<Rightarrow> 'a outcome reply \<times> 'w) \<Rightarrow> 'w
                                \<Rightarrow> 'a outcome reply \<times> 'w" where
  "requireAuth_srv s next w =
     (if user s \<noteq> None then next w else (Reply 401 (Error ''Unauthorized''), w))"

definition bridge_handler :: "string option \<Rightarrow> string option \<Rightarrow> ('j fetch_request \<Rightarrow> 'j fetch_result)
     \<Rightarrow> 'j mcp_body option \<Rightarrow> 'j world \<Rightarrow> 'j bridge_out outcome reply \<times> 'j world" where
  "bridge_handler mcp_url mcp_key upstream b w =
     (let MCP_URL = env_or_null mcp_url;
          MCP_API_KEY = env_or_null mcp_key
      in case MCP_URL of
           None \<Rightarrow> (Reply 500 (Error ''MCP_URL not set on demo service''), w)
         | Some u \<Rightarrow>
             (let rq = \<lparr>url = u,
                        headers = [(''Content-Type'', ''application/json''),
                                   (''Accept'', ''application/json'')] @ bearer MCP_API_KEY,
                        payload = (case b of None \<Rightarrow> empty_body | Some x \<Rightarrow> x)\<rparr>;
                  w1 = w\<lparr>fetched := fetched w @ [rq]\<rparr>
              in case upstream rq of
                   Rejected e \<Rightarrow>
                     (Reply 502 (Handled (BridgeFailure ''MCP bridge failed'' (Message (exn_text e)))), w1)
                 | Resolved resp \<Rightarrow>
                     (let ct = (case content_type resp of None \<Rightarrow> [] | Some x \<Rightarrow> x);
                          isJson = str_includes ct ''application/json''
                      in if \<not> ok resp
                         then
                           (let body = (if isJson
                                        then (case json resp of Inl e \<Rightarrow> BodyEmpty | Inr d \<Rightarrow> BodyJson d)
                                        else BodyText (text_of resp))
                            in (Reply 502 (Handled (BridgeFailure ''MCP bridge failed'' (Stringified body))), w1))
                         else if isJson
                         then (case json resp of
                                 Inl e \<Rightarrow>
                                   (Reply 502 (Handled (BridgeFailure ''MCP bridge failed''
                                                         (Message (exn_text e)))), w1)
                               | Inr d \<Rightarrow> (Reply 200 (Handled (Passed d)), w1))
                         else (Reply 200 (Handled (Raw (text_of resp))), w1))))"

definition srv_mcp_query :: "string option \<Rightarrow> string option \<Rightarrow> ('j fetch_request \<Rightarrow> 'j fetch_result)
     \<Rightarrow> session \<Rightarrow> 'j mcp_body option \<Rightarrow> 'j world \<Rightarrow> 'j bridge_out outcome reply \<times> 'j world" where
  "srv_mcp_query mcp_url mcp_key upstream s b =
     requireAuth_srv s (bridge_handler mcp_url mcp_key upstream b)"

section \<open>Properties and concrete inputs\<close>

subsection \<open>The lockout table\<close>

text \<open>Every stored counter is below the threshold.\<close>

definition attempts_bounded :: "lockouts \<Rightarrow> bool" where
  "attempts_bounded L = (\<forall>ip e. L ip = Some e \<longrightarrow> 0 \<le> attempts e \<and> attempts e < MAX_ATTEMPTS)"

text \<open>At time \<open>t\<close>: every stored counter is below the threshold, and an entry whose lock
  is still running has the counter 0.\<close>

definition lock_inv :: "int \<Rightarrow> lockouts \<Rightarrow> bool" where
  "lock_inv t L =
     (attempts_bounded L \<and>
      (\<forall>ip e. L ip = Some e \<longrightarrow> until e \<noteq> 0 \<and> until e > t \<longrightarrow> attempts e = 0))"

text \<open>No entry of the table carries a lock, running or expired.\<close>

definition never_locked :: "lockouts \<Rightarrow> bool" where
  "never_locked L = (\<forall>ip e. L ip = Some e \<longrightarrow> until e = 0)"

text \<open>A login request with a wrong password, and the same request with the right one.\<close>

definition bad_req :: login_req where
  "bad_req = \<lparr>x_forwarded_for = Some ''203.0.113.7, 10.0.0.1'', remoteAddress = Some ''10.0.0.1'',
              username = Some ''proximus'', password = Some ''wrong''\<rparr>"

definition good_req :: login_req where
  "good_req = bad_req\<lparr>password := Some ''proximus123''\<rparr>"

text \<open>A table in which that client's lock runs until 600000.\<close>

definition locked_map :: lockouts where
  "locked_map = [''203.0.113.7'' \<mapsto> \<lparr>attempts = 0, until = 600000\<rparr>]"

text \<open>A table in which that client has failed twice and holds no lock.\<close>

definition two_strikes :: lockouts where
  "two_strikes = [''203.0.113.7'' \<mapsto> \<lparr>attempts = 2, until = 0\<rparr>]"

subsection \<open>Rows, queries and sessions\<close>

text \<open>A row of the dataset with the given id, country, status and latency.\<close>

definition row :: "int \<Rightarrow> string \<Rightarrow> string \<Rightarrow> int \<Rightarrow> sms" where
  "row i c st l = \<lparr>id_of = i, country = c, carrier = ''TeleOne'', status_of = st, latency_ms = l,
                   message = ''Hello from Proximus demo'', timestamp = 0\<rparr>"

text \<open>Eight rows, six of them from the US.\<close>

definition sample_rows :: "sms list" where
  "sample_rows = [row 1 ''US'' ''DELIVERED'' 100, row 2 ''GB'' ''FAILED'' 250,
                  row 3 ''US'' ''BLOCKED'' 3099, row 4 ''US'' ''PENDING'' 500,
                  row 5 ''US'' ''DELIVERED'' 700, row 6 ''DE'' ''DELIVERED'' 900,
                  row 7 ''US'' ''FAILED'' 1100, row 8 ''US'' ''DELIVERED'' 1300]"

text \<open>A stand-in for the runtime's upper-casing of text beyond ASCII, for the examples:
  it leaves such text as it is. No example below sends any.\<close>

definition plain_up :: "ustring \<Rightarrow> ustring" where
  "plain_up s = s"

text \<open>The query \<^verbatim>\<open>?country=us&limit=5\<close>, the query without parameters, and a session
  established by a login.\<close>

definition us5 :: sms_query where
  "us5 = \<lparr>q_country = Some (units ''us''), q_status = None, q_limit = Some (units ''5'')\<rparr>"

definition all_q :: sms_query where
  "all_q = \<lparr>q_country = None, q_status = None, q_limit = None\<rparr>"

definition some_session :: "session option" where
  "some_session = Some \<lparr>user = Some ''Proximus Demo User''\<rparr>"

subsection \<open>The dataset, a bridge request and an upstream\<close>

text \<open>The random source that always draws 0, and a clock that stands at 0.\<close>

definition rnd_zero :: "nat \<Rightarrow> real" where
  "rnd_zero k = 0"

definition clock_zero :: "nat \<Rightarrow> int" where
  "clock_zero i = 0"

text \<open>JSON values for the examples: flat objects of string fields.\<close>

type_synonym flat_json = "(string \<times> string) list"

text \<open>The body the page sends for its KPI button, without filters.\<close>

definition kpi_body :: "flat_json mcp_body" where
  "kpi_body = \<lparr>prompt = Some [(''text'', ''Compute KPIs'')], resource = Some ''kpis'',
               filters = Some \<lparr>f_country = None, f_status = None\<rparr>\<rparr>"

text \<open>An upstream that answers every request with status 500 and a JSON error body.\<close>

definition up500 :: "flat_json fetch_request \<Rightarrow> flat_json fetch_result" where
  "up500 rq = Resolved \<lparr>ok = False, code = 500, content_type = Some ''application/json'',
                          json = Inr [(''error'', ''upstream exploded'')],
                          text_of = ''upstream exploded''\<rparr>"

definition mcp_example_url :: string where
  "mcp_example_url = ''https://mcp.example.com/query''"

subsection \<open>The stream\<close>

text \<open>
  What holds of the world between two events: every timer belongs to a connection that
  exists, has its \<^verbatim>\<open>'close'\<close> listener registered and has not closed; no connection has two
  timers; no frame is dated after the clock; a closed connection exists and each of its
  frames was written by the time it closed.
\<close>

definition stream_inv :: "'j world \<Rightarrow> bool" where
  "stream_inv w =
     ((\<forall>t\<in>set (timers w). t_conn t < next_conn w) \<and>
      (\<forall>t\<in>set (timers w). (t_conn t, t_id t) \<in> set (listeners w)) \<and>
      (\<forall>t\<in>set (timers w). \<forall>tc. (t_conn t, tc) \<notin> set (closed w)) \<and>
      distinct (map t_conn (timers w)) \<and>
      (\<forall>f\<in>set (frames w). fr_at f \<le> clock w) \<and>
      (\<forall>c tc. (c, tc) \<in> set (closed w) \<longrightarrow> c < next_conn w) \<and>
      (\<forall>c tc. (c, tc) \<in> set (closed w) \<longrightarrow>
         (\<forall>f\<in>set (frames w). fr_conn f = c \<longrightarrow> fr_at f \<le> tc)))"

text \<open>A client opens the stream, receives two frames, and disconnects 200 ms after the
  second; the runtime then tries the cleared timer once more.\<close>

definition stream_events :: "(nat \<times> event) list" where
  "stream_events = [(0, Open some_session), (1500, Fire 0 0 ''a''), (1500, Fire 0 0 ''b''),
                    (200, Close 0), (1300, Fire 0 0 ''c'')]"


section \<open>The lockout tracker and the login route\<close>

lemma client_ip_bad_req: "client_ip bad_req = ''203.0.113.7''"
  by (simp add: client_ip_def bad_req_def trim_def is_ws_def)

lemma client_ip_good_req: "client_ip good_req = ''203.0.113.7''"
  by (simp add: client_ip_def good_req_def bad_req_def trim_def is_ws_def)

lemma checkLockout_Unlocked:
  "fst (checkLockout L ip now) = Unlocked \<Longrightarrow> snd (checkLockout L ip now) = L(ip := None)"
  by (auto simp: checkLockout_def split: option.splits if_splits)

lemma checkLockout_Locked:
  "fst (checkLockout L ip now) = Locked m \<Longrightarrow> snd (checkLockout L ip now) = L"
  by (auto simp: checkLockout_def split: option.splits if_splits)

lemma checkLockout_expired:
  "L ip = Some e \<Longrightarrow> until e \<le> now \<Longrightarrow> checkLockout L ip now = (Unlocked, L(ip := None))"
  by (simp add: checkLockout_def)

lemma registerAttempt_success: "registerAttempt L ip True now = L(ip := None)"
  by (simp add: registerAttempt_def)

lemma registerAttempt_fresh:
  "L ip = None \<Longrightarrow> registerAttempt L ip False now = L(ip \<mapsto> \<lparr>attempts = 1, until = 0\<rparr>)"
  by (simp add: registerAttempt_def MAX_ATTEMPTS_def)

lemma registerAttempt_third:
  "L ip = Some e \<Longrightarrow> attempts e = 2 \<Longrightarrow>
   registerAttempt L ip False now = L(ip \<mapsto> \<lparr>attempts = 0, until = now + 600000\<rparr>)"
  by (cases e) (simp add: registerAttempt_def MAX_ATTEMPTS_def LOCK_MINUTES_def)

lemma login_unlocked_failed:
  assumes "fst (checkLockout L (client_ip r) now) = Unlocked" and "\<not> credentials_ok r"
  shows "login L s now now' r =
           (Reply 401 InvalidCredentials, L(client_ip r \<mapsto> \<lparr>attempts = 1, until = 0\<rparr>), s)"
proof -
  have "checkLockout L (client_ip r) now = (Unlocked, L(client_ip r := None))"
    using assms(1) checkLockout_Unlocked[of L "client_ip r" now] by (simp add: prod_eq_iff)
  then show ?thesis
    using assms(2) by (simp add: login_def registerAttempt_fresh)
qed

lemma login_unlocked_ok:
  assumes "fst (checkLockout L (client_ip r) now) = Unlocked" and "credentials_ok r"
  shows "login L s now now' r =
           (Reply 200 OkTrue, L(client_ip r := None), s\<lparr>user := Some ''Proximus Demo User''\<rparr>)"
proof -
  have "checkLockout L (client_ip r) now = (Unlocked, L(client_ip r := None))"
    using assms(1) checkLockout_Unlocked[of L "client_ip r" now] by (simp add: prod_eq_iff)
  then show ?thesis
    using assms(2) by (simp add: login_def registerAttempt_success)
qed

lemma login_locked:
  assumes "fst (checkLockout L (client_ip r) now) = Locked m"
  shows "login L s now now' r = (Reply 429 (TooManyAttempts m), L, s)"
proof -
  have "checkLockout L (client_ip r) now = (Locked m, L)"
    using assms checkLockout_Locked[of L "client_ip r" now m] by (simp add: prod_eq_iff)
  then show ?thesis by (simp add: login_def)
qed

lemma checkLockout_no_lock_set:
  "L ip = Some e \<Longrightarrow> until e = 0 \<Longrightarrow> fst (checkLockout L ip t) = Unlocked"
  by (simp add: checkLockout_def)

text \<open>
  Through the login route no lock is ever set: a table without locks stays without
  locks, and no request is answered 429.
\<close>

lemma never_locked_login:
  assumes "never_locked L"
  shows "never_locked (fst (snd (login L s now now' r))) \<and> status (fst (login L s now now' r)) \<noteq> 429"
proof -
  have u: "fst (checkLockout L (client_ip r) now) = Unlocked"
    using assms by (auto simp: never_locked_def checkLockout_def split: option.splits)
  have a: "never_locked (L(client_ip r := None))"
    using assms by (simp add: never_locked_def)
  have b: "never_locked (L(client_ip r \<mapsto> \<lparr>attempts = 1, until = 0\<rparr>))"
    using assms by (simp add: never_locked_def)
  show ?thesis
    using login_unlocked_failed[OF u, of s now'] login_unlocked_ok[OF u, of s now'] a b
    by (cases "credentials_ok r") simp_all
qed

lemma logins_never_429:
  "never_locked L \<Longrightarrow> \<forall>resp\<in>set (fst (logins L s rs)). status resp \<noteq> 429"
proof (induction rs arbitrary: L s)
  case Nil
  then show ?case by simp
next
  case (Cons x rs)
  obtain now now' r where x: "x = (now, now', r)" by (cases x) auto
  obtain resp L' s' where l: "login L s now now' r = (resp, L', s')"
    by (cases "login L s now now' r") auto
  have n: "never_locked L'" and st: "status resp \<noteq> 429"
    using never_locked_login[OF Cons.prems, of s now now' r] l by simp_all
  have "\<forall>resp\<in>set (fst (logins L' s' rs)). status resp \<noteq> 429"
    using n by (rule Cons.IH)
  then show ?case using x l st by (simp add: case_prod_beta)
qed

lemma logins_from_empty_never_429:
  "\<forall>resp\<in>set (fst (logins Map.empty s rs)). status resp \<noteq> 429"
  by (rule logins_never_429) (simp add: never_locked_def)

text \<open>
  When the third consecutive failure is registered on an entry, the lock is set ten minutes
  ahead and the counter goes back to 0; a locked client is answered 429 whatever it sends.
\<close>

lemma login_while_locked:
  assumes "L (client_ip r) = Some e" and "until e \<noteq> 0" and "now < until e"
  shows "login L s now now' r = (Reply 429 (TooManyAttempts (ceil_minutes (until e - now))), L, s)"
  using assms by (simp add: login_def checkLockout_def)

text \<open>
  Claim C1. Three consecutive failed logins of one client, then a login with the right
  credentials: the claim has the fourth request rejected with 429. The route answers
  401, 401, 401 and then 200: \<^verbatim>\<open>checkLockout\<close> deletes the client's entry on every request
  that is not locked, so each failure is registered on a fresh entry and the counter never
  passes 1.
\<close>

theorem three_failures_do_not_lock:
  "logins Map.empty \<lparr>user = None\<rparr>
      [(1000, 1000, bad_req), (2000, 2000, bad_req), (3000, 3000, bad_req), (4000, 4000, good_req)]
   = ([Reply 401 InvalidCredentials, Reply 401 InvalidCredentials, Reply 401 InvalidCredentials,
       Reply 200 OkTrue],
      Map.empty, \<lparr>user = Some ''Proximus Demo User''\<rparr>)"
proof -
  have b: "\<not> credentials_ok bad_req" by (simp add: credentials_ok_def bad_req_def)
  have g: "credentials_ok good_req" by (simp add: credentials_ok_def good_req_def bad_req_def)
  let ?ip = "''203.0.113.7''"
  let ?L1 = "[?ip \<mapsto> \<lparr>attempts = 1, until = 0\<rparr>]"
  have u0: "fst (checkLockout Map.empty (client_ip bad_req) t) = Unlocked" for t
    by (simp add: checkLockout_def)
  have u1: "fst (checkLockout ?L1 ?ip t) = Unlocked" for t
    by (simp add: checkLockout_def)
  have s0: "login Map.empty s t t' bad_req = (Reply 401 InvalidCredentials, ?L1, s)" for s t t'
    using login_unlocked_failed[OF u0 b, of s t t'] by (simp add: client_ip_bad_req)
  have s1: "login ?L1 s t t' bad_req = (Reply 401 InvalidCredentials, ?L1, s)" for s t t'
    using login_unlocked_failed[of ?L1 bad_req t s t'] u1 b by (simp add: client_ip_bad_req)
  have s2: "login ?L1 s t t' good_req = (Reply 200 OkTrue, Map.empty, s\<lparr>user := Some ''Proximus Demo User''\<rparr>)" for s t t'
    using login_unlocked_ok[of ?L1 good_req t s t'] u1 g by (simp add: client_ip_good_req)
  show ?thesis by (simp add: s0 s1 s2)
qed

text \<open>
  Claim C5. For every client, an entry whose \<^verbatim>\<open>until\<close> has passed is reported unlocked
  and removed from the table; a failed login of that client at that moment is answered 401
  and leaves the fresh entry \<^verbatim>\<open>{ attempts: 1, until: 0 }\<close>, which no later check reports
  locked.
\<close>

theorem expired_lock_evicted:
  assumes "L ip = Some e" and "until e \<le> now"
  shows "checkLockout L ip now = (Unlocked, L(ip := None)) \<and>
         (client_ip r = ip \<and> \<not> credentials_ok r \<longrightarrow>
            login L s now now' r =
              (Reply 401 InvalidCredentials, L(ip \<mapsto> \<lparr>attempts = 1, until = 0\<rparr>), s) \<and>
            fst (checkLockout (fst (snd (login L s now now' r))) ip t) = Unlocked)"
proof -
  have c: "checkLockout L ip now = (Unlocked, L(ip := None))"
    using assms by (rule checkLockout_expired)
  have "login L s now now' r =
          (Reply 401 InvalidCredentials, L(ip \<mapsto> \<lparr>attempts = 1, until = 0\<rparr>), s) \<and>
        fst (checkLockout (fst (snd (login L s now now' r))) ip t) = Unlocked"
    if h: "client_ip r = ip" "\<not> credentials_ok r"
  proof -
    have l: "login L s now now' r =
          (Reply 401 InvalidCredentials, L(ip \<mapsto> \<lparr>attempts = 1, until = 0\<rparr>), s)"
      using login_unlocked_failed[of L r now s now'] c h by simp
    show ?thesis using l by (simp add: checkLockout_def)
  qed
  then show ?thesis using c by blast
qed

theorem expired_lock_evicted_witness:
  "locked_map ''203.0.113.7'' = Some \<lparr>attempts = 0, until = 600000\<rparr> \<and>
   until \<lparr>attempts = 0, until = 600000\<rparr> \<le> 600000 \<and>
   client_ip bad_req = ''203.0.113.7'' \<and> \<not> credentials_ok bad_req \<and>
   checkLockout locked_map ''203.0.113.7'' 600000 = (Unlocked, Map.empty) \<and>
   login locked_map \<lparr>user = None\<rparr> 600000 600001 bad_req =
     (Reply 401 InvalidCredentials, [''203.0.113.7'' \<mapsto> \<lparr>attempts = 1, until = 0\<rparr>], \<lparr>user = None\<rparr>) \<and>
   fst (checkLockout (fst (snd (login locked_map \<lparr>user = None\<rparr> 600000 600001 bad_req)))
          ''203.0.113.7'' 600002) = Unlocked"
proof -
  have b: "\<not> credentials_ok bad_req" by (simp add: credentials_ok_def bad_req_def)
  have m: "locked_map ''203.0.113.7'' = Some \<lparr>attempts = 0, until = 600000\<rparr>"
    by (simp add: locked_map_def)
  have u: "until \<lparr>attempts = 0, until = 600000\<rparr> \<le> 600000" by simp
  note th = expired_lock_evicted[where L = locked_map and ip = "''203.0.113.7''"
      and e = "\<lparr>attempts = 0, until = 600000\<rparr>" and now = 600000 and r = bad_req
      and s = "\<lparr>user = None\<rparr>" and now' = 600001 and t = 600002, OF m u]
  have e: "locked_map(''203.0.113.7'' := None) = Map.empty"
    by (simp add: locked_map_def)
  have e2: "locked_map(''203.0.113.7'' \<mapsto> \<lparr>attempts = 1, until = 0\<rparr>)
              = [''203.0.113.7'' \<mapsto> \<lparr>attempts = 1, until = 0\<rparr>]"
    by (simp add: locked_map_def)
  note th' = th[unfolded e e2]
  have c1: "checkLockout locked_map ''203.0.113.7'' 600000 = (Unlocked, Map.empty)"
    using th' by blast
  have c2: "login locked_map \<lparr>user = None\<rparr> 600000 600001 bad_req =
     (Reply 401 InvalidCredentials, [''203.0.113.7'' \<mapsto> \<lparr>attempts = 1, until = 0\<rparr>], \<lparr>user = None\<rparr>)"
    using th' b client_ip_bad_req by blast
  have c3: "fst (checkLockout (fst (snd (login locked_map \<lparr>user = None\<rparr> 600000 600001 bad_req)))
          ''203.0.113.7'' 600002) = Unlocked"
    using th' b client_ip_bad_req by blast
  from m u client_ip_bad_req b c1 c2 c3 show ?thesis by (intro conjI)
qed

lemma attempts_bounded_checkLockout:
  "attempts_bounded L \<Longrightarrow> attempts_bounded (snd (checkLockout L ip now))"
  by (auto simp: attempts_bounded_def checkLockout_def split: option.splits if_splits)

lemma attempts_bounded_registerAttempt:
  "attempts_bounded L \<Longrightarrow> attempts_bounded (registerAttempt L ip suc now)"
  by (auto simp: attempts_bounded_def registerAttempt_def MAX_ATTEMPTS_def Let_def
           split: option.splits if_splits)

lemma lock_inv_checkLockout:
  "lock_inv t L \<Longrightarrow> lock_inv t (snd (checkLockout L ip now))"
  by (auto simp: lock_inv_def attempts_bounded_def checkLockout_def split: option.splits if_splits)

lemma lock_inv_remove: "lock_inv t L \<Longrightarrow> lock_inv t (L(ip := None))"
  by (auto simp: lock_inv_def attempts_bounded_def split: if_splits)

lemma lock_inv_first_failure:
  "lock_inv t L \<Longrightarrow> lock_inv t (L(ip \<mapsto> \<lparr>attempts = 1, until = 0\<rparr>))"
  by (auto simp: lock_inv_def attempts_bounded_def MAX_ATTEMPTS_def split: if_splits)

lemma lock_inv_register_after_check:
  assumes "lock_inv t L" and "fst (checkLockout L ip now) = Unlocked"
  shows "lock_inv t (registerAttempt (snd (checkLockout L ip now)) ip suc now')"
proof -
  have e: "snd (checkLockout L ip now) = L(ip := None)"
    using assms(2) by (rule checkLockout_Unlocked)
  show ?thesis
  proof (cases suc)
    case True
    then show ?thesis using assms(1) e by (simp add: registerAttempt_success lock_inv_remove)
  next
    case False
    then show ?thesis using assms(1) e
      by (simp add: registerAttempt_fresh lock_inv_first_failure)
  qed
qed

lemma lock_inv_login:
  assumes "lock_inv t L"
  shows "lock_inv t (fst (snd (login L s now now' r)))"
proof (cases "fst (checkLockout L (client_ip r) now)")
  case Unlocked
  then show ?thesis
    using assms login_unlocked_failed[of L r now s now'] login_unlocked_ok[of L r now s now']
    by (cases "credentials_ok r") (simp_all add: lock_inv_remove lock_inv_first_failure)
next
  case (Locked m)
  then show ?thesis using assms login_locked[of L r now m s now'] by simp
qed

lemma lock_inv_logins:
  "lock_inv t L \<Longrightarrow> lock_inv t (fst (snd (logins L s rs)))"
proof (induction rs arbitrary: L s)
  case Nil
  then show ?case by simp
next
  case (Cons x rs)
  obtain now now' r where x: "x = (now, now', r)" by (cases x) auto
  obtain resp L' s' where l: "login L s now now' r = (resp, L', s')" by (cases "login L s now now' r") auto
  have "lock_inv t L'" using lock_inv_login[OF Cons.prems, of s now now' r] l by simp
  then have "lock_inv t (fst (snd (logins L' s' rs)))" by (rule Cons.IH)
  then show ?case using x l by (simp add: case_prod_beta)
qed

lemma lock_inv_later: "lock_inv t L \<Longrightarrow> t \<le> t' \<Longrightarrow> lock_inv t' L"
  by (fastforce simp: lock_inv_def)

lemma lock_inv_empty: "lock_inv t Map.empty"
  by (simp add: lock_inv_def attempts_bounded_def)

lemma lock_inv_set:
  assumes "lock_inv t L" and "0 \<le> attempts e" and "attempts e < MAX_ATTEMPTS"
    and "until e \<noteq> 0 \<and> until e > t \<longrightarrow> attempts e = 0"
  shows "lock_inv t (L(ip \<mapsto> e))"
  using assms by (auto simp: lock_inv_def attempts_bounded_def)

lemma lock_inv_registerAttempt_unlocked:
  assumes i: "lock_inv now L" and u: "\<forall>e. L ip = Some e \<longrightarrow> until e = 0 \<or> until e \<le> now"
  shows "lock_inv now (registerAttempt L ip suc now)"
proof (cases suc)
  case True
  then show ?thesis using i by (simp add: registerAttempt_success lock_inv_remove)
next
  case False
  define e0 where "e0 = (case L ip of None \<Rightarrow> \<lparr>attempts = 0, until = 0\<rparr> | Some e \<Rightarrow> e)"
  have b0: "0 \<le> attempts e0 \<and> attempts e0 < MAX_ATTEMPTS"
    using i by (auto simp: e0_def lock_inv_def attempts_bounded_def MAX_ATTEMPTS_def split: option.splits)
  have u0: "until e0 = 0 \<or> until e0 \<le> now"
    using u by (auto simp: e0_def split: option.splits)
  show ?thesis
  proof (cases "attempts e0 + 1 \<ge> MAX_ATTEMPTS")
    case True
    then have "registerAttempt L ip suc now
                 = L(ip \<mapsto> e0\<lparr>attempts := attempts e0 + 1\<rparr>\<lparr>until := now + LOCK_MINUTES * 60000, attempts := 0\<rparr>)"
      using False by (simp add: registerAttempt_def e0_def Let_def)
    then show ?thesis
      using i by (simp add: lock_inv_set MAX_ATTEMPTS_def)
  next
    case F: False
    then have "registerAttempt L ip suc now = L(ip \<mapsto> e0\<lparr>attempts := attempts e0 + 1\<rparr>)"
      using False by (simp add: registerAttempt_def e0_def Let_def)
    then show ?thesis
      using i b0 u0 F by (auto intro!: lock_inv_set)
  qed
qed

text \<open>
  Claim C9, as amended. The invariant \<open>lock_inv\<close> (every stored counter is at least 0 and
  below 3, and an entry with a running lock has the counter 0) is kept by every
  \<^verbatim>\<open>checkLockout\<close> call, by the passing of time, and by every \<^verbatim>\<open>registerAttempt\<close> call made
  for a client that has no running lock at the time of the call, which includes the call
  that sets the lock: registered on a counter of 2, a failure stores
  \<^verbatim>\<open>{ attempts: 0, until: now + 600000 }\<close>. The login route calls \<^verbatim>\<open>registerAttempt\<close> only
  after \<^verbatim>\<open>checkLockout\<close> returned unlocked, so the route keeps the invariant, and every
  table reached from the empty one by login requests satisfies it. The bound on the counter
  alone is kept by every \<^verbatim>\<open>registerAttempt\<close> call whatsoever.
\<close>

theorem lockout_invariant_maintained:
  "(lock_inv t L \<longrightarrow>
      lock_inv t (snd (checkLockout L ip now)) \<and>
      (fst (checkLockout L ip now) = Unlocked \<longrightarrow>
         lock_inv t (registerAttempt (snd (checkLockout L ip now)) ip suc now')) \<and>
      lock_inv t (fst (snd (login L s now now' r))) \<and>
      (\<forall>t' \<ge> t. lock_inv t' L)) \<and>
   (lock_inv now L \<and> (\<forall>e. L ip = Some e \<longrightarrow> until e = 0 \<or> until e \<le> now) \<longrightarrow>
      lock_inv now (registerAttempt L ip suc now)) \<and>
   (L ip = Some e \<and> attempts e = 2 \<longrightarrow>
      registerAttempt L ip False now = L(ip \<mapsto> \<lparr>attempts = 0, until = now + 600000\<rparr>)) \<and>
   (attempts_bounded L \<longrightarrow> attempts_bounded (registerAttempt L ip suc now)) \<and>
   lock_inv t (fst (snd (logins Map.empty s rs)))"
proof -
  have a: "lock_inv t L \<longrightarrow>
      lock_inv t (snd (checkLockout L ip now)) \<and>
      (fst (checkLockout L ip now) = Unlocked \<longrightarrow>
         lock_inv t (registerAttempt (snd (checkLockout L ip now)) ip suc now')) \<and>
      lock_inv t (fst (snd (login L s now now' r))) \<and>
      (\<forall>t' \<ge> t. lock_inv t' L)"
    by (simp add: lock_inv_checkLockout lock_inv_register_after_check lock_inv_login lock_inv_later)
  have b: "lock_inv now L \<and> (\<forall>e. L ip = Some e \<longrightarrow> until e = 0 \<or> until e \<le> now) \<longrightarrow>
      lock_inv now (registerAttempt L ip suc now)"
    using lock_inv_registerAttempt_unlocked[of now L ip suc] by blast
  have c: "L ip = Some e \<and> attempts e = 2 \<longrightarrow>
      registerAttempt L ip False now = L(ip \<mapsto> \<lparr>attempts = 0, until = now + 600000\<rparr>)"
    using registerAttempt_third[of L ip e now] by blast
  have d: "attempts_bounded L \<longrightarrow> attempts_bounded (registerAttempt L ip suc now)"
    by (simp add: attempts_bounded_registerAttempt)
  have e: "lock_inv t (fst (snd (logins Map.empty s rs)))"
    by (rule lock_inv_logins) (rule lock_inv_empty)
  from a b c d e show ?thesis by (intro conjI)
qed

theorem lockout_invariant_maintained_witness:
  "lock_inv 1000 two_strikes \<and>
   two_strikes ''203.0.113.7'' = Some \<lparr>attempts = 2, until = 0\<rparr> \<and>
   registerAttempt two_strikes ''203.0.113.7'' False 1000
     = [''203.0.113.7'' \<mapsto> \<lparr>attempts = 0, until = 601000\<rparr>] \<and>
   lock_inv 1000 (registerAttempt two_strikes ''203.0.113.7'' False 1000) \<and>
   lock_inv 0 locked_map \<and>
   lock_inv 0 (snd (checkLockout locked_map ''203.0.113.7'' 700000)) \<and>
   fst (checkLockout locked_map ''203.0.113.7'' 700000) = Unlocked \<and>
   lock_inv 0 (registerAttempt (snd (checkLockout locked_map ''203.0.113.7'' 700000)) ''203.0.113.7'' False 700001) \<and>
   lock_inv 0 (fst (snd (login locked_map \<lparr>user = None\<rparr> 700000 700001 bad_req))) \<and>
   lock_inv 5 locked_map \<and>
   attempts_bounded locked_map \<and>
   attempts_bounded (registerAttempt locked_map ''203.0.113.7'' False 700000)"
proof -
  have i2: "lock_inv 1000 two_strikes"
    by (simp add: lock_inv_def attempts_bounded_def two_strikes_def MAX_ATTEMPTS_def)
  have m: "two_strikes ''203.0.113.7'' = Some \<lparr>attempts = 2, until = 0\<rparr>"
    by (simp add: two_strikes_def)
  have u2: "\<forall>e. two_strikes ''203.0.113.7'' = Some e \<longrightarrow> until e = 0 \<or> until e \<le> 1000"
    by (simp add: two_strikes_def)
  note th2 = lockout_invariant_maintained[where t = 1000 and L = two_strikes
      and ip = "''203.0.113.7''" and now = 1000 and suc = False and now' = 1000
      and s = "\<lparr>user = None\<rparr>" and r = bad_req and rs = "[]"
      and e = "\<lparr>attempts = 2, until = 0\<rparr>"]
  have r2: "registerAttempt two_strikes ''203.0.113.7'' False 1000
     = [''203.0.113.7'' \<mapsto> \<lparr>attempts = 0, until = 601000\<rparr>]"
    using th2 m by (simp add: two_strikes_def)
  have l2: "lock_inv 1000 (registerAttempt two_strikes ''203.0.113.7'' False 1000)"
    using th2 i2 u2 by blast
  have i: "lock_inv 0 locked_map"
    by (simp add: lock_inv_def attempts_bounded_def locked_map_def MAX_ATTEMPTS_def)
  have u: "fst (checkLockout locked_map ''203.0.113.7'' 700000) = Unlocked"
    by (simp add: checkLockout_def locked_map_def)
  have a: "attempts_bounded locked_map"
    by (simp add: attempts_bounded_def locked_map_def MAX_ATTEMPTS_def)
  note th = lockout_invariant_maintained[where t = 0 and L = locked_map
      and ip = "''203.0.113.7''" and now = 700000 and suc = False and now' = 700001
      and s = "\<lparr>user = None\<rparr>" and r = bad_req and rs = "[]"]
  have rest: "lock_inv 0 (snd (checkLockout locked_map ''203.0.113.7'' 700000))"
    "lock_inv 0 (registerAttempt (snd (checkLockout locked_map ''203.0.113.7'' 700000)) ''203.0.113.7'' False 700001)"
    "lock_inv 0 (fst (snd (login locked_map \<lparr>user = None\<rparr> 700000 700001 bad_req)))"
    "lock_inv 5 locked_map"
    "attempts_bounded (registerAttempt locked_map ''203.0.113.7'' False 700000)"
    using th i u a by simp_all
  from i2 m r2 l2 i rest(1) u rest(2,3,4) a rest(5) show ?thesis by (intro conjI)
qed

text \<open>
  Claim C9 as first stated has every \<^verbatim>\<open>registerAttempt\<close> call keep the invariant. A failure
  registered for a client whose lock is still running raises the counter to 1 under the
  lock.
\<close>

theorem registerAttempt_under_lock_counterexample:
  "lock_inv 1000 locked_map \<and>
   registerAttempt locked_map ''203.0.113.7'' False 1000
     = [''203.0.113.7'' \<mapsto> \<lparr>attempts = 1, until = 600000\<rparr>] \<and>
   \<not> lock_inv 1000 (registerAttempt locked_map ''203.0.113.7'' False 1000)"
proof -
  have i: "lock_inv 1000 locked_map"
    by (simp add: lock_inv_def attempts_bounded_def locked_map_def MAX_ATTEMPTS_def)
  have r: "registerAttempt locked_map ''203.0.113.7'' False 1000
     = [''203.0.113.7'' \<mapsto> \<lparr>attempts = 1, until = 600000\<rparr>]"
    by (simp add: registerAttempt_def locked_map_def MAX_ATTEMPTS_def)
  have n: "\<not> lock_inv 1000 [''203.0.113.7'' \<mapsto> \<lparr>attempts = 1, until = 600000\<rparr>]"
    by (auto simp: lock_inv_def)
  from i r n show ?thesis by simp
qed


lemma registerAttempt_second:
  "L ip = Some \<lparr>attempts = 1, until = 0\<rparr> \<Longrightarrow>
   registerAttempt L ip False now = L(ip \<mapsto> \<lparr>attempts = 2, until = 0\<rparr>)"
  by (simp add: registerAttempt_def MAX_ATTEMPTS_def)

lemma two_failures_after_success:
  "registerAttempt (registerAttempt (registerAttempt L ip True t3) ip False t4) ip False t5 =
     L(ip \<mapsto> \<lparr>attempts = 2, until = 0\<rparr>)"
  by (simp add: registerAttempt_success registerAttempt_fresh registerAttempt_second)

lemma login_ok_removes_entry:
  assumes "fst (login L s now now' r) = Reply 200 OkTrue"
  shows "fst (snd (login L s now now' r)) (client_ip r) = None"
proof (cases "fst (checkLockout L (client_ip r) now)")
  case Unlocked
  then show ?thesis
    using assms login_unlocked_failed[of L r now s now'] login_unlocked_ok[of L r now s now']
    by (cases "credentials_ok r") simp_all
next
  case (Locked m)
  then show ?thesis using assms login_locked[of L r now m s now'] by simp
qed

lemma logins_fail_fail_ok_fail_fail:
  assumes u: "fst (checkLockout L (client_ip rb) t1) = Unlocked"
    and b: "\<not> credentials_ok rb" and g: "credentials_ok rg" and i: "client_ip rg = client_ip rb"
  shows "logins L s [(t1, t1', rb), (t2, t2', rb), (t3, t3', rg), (t4, t4', rb), (t5, t5', rb)] =
           ([Reply 401 InvalidCredentials, Reply 401 InvalidCredentials, Reply 200 OkTrue,
             Reply 401 InvalidCredentials, Reply 401 InvalidCredentials],
            L(client_ip rb \<mapsto> \<lparr>attempts = 1, until = 0\<rparr>),
            s\<lparr>user := Some ''Proximus Demo User''\<rparr>)"
proof -
  let ?ip = "client_ip rb"
  let ?L1 = "L(?ip \<mapsto> \<lparr>attempts = 1, until = 0\<rparr>)"
  let ?L0 = "L(?ip := None)"
  have u1: "fst (checkLockout ?L1 ?ip t) = Unlocked" for t
    by (simp add: checkLockout_def)
  have u0: "fst (checkLockout ?L0 ?ip t) = Unlocked" for t
    by (simp add: checkLockout_def)
  have s1: "login L s t1 t1' rb = (Reply 401 InvalidCredentials, ?L1, s)"
    using login_unlocked_failed[OF u b] .
  have s2: "login ?L1 x t t' rb = (Reply 401 InvalidCredentials, ?L1, x)" for x t t'
    using login_unlocked_failed[of ?L1 rb t x t'] u1 b by simp
  have s3: "login ?L1 x t t' rg = (Reply 200 OkTrue, ?L0, x\<lparr>user := Some ''Proximus Demo User''\<rparr>)"
    for x t t'
    using login_unlocked_ok[of ?L1 rg t x t'] u1 g i by simp
  have s4: "login ?L0 x t t' rb = (Reply 401 InvalidCredentials, ?L1, x)" for x t t'
    using login_unlocked_failed[of ?L0 rb t x t'] u0 b by simp
  show ?thesis by (simp add: s1 s2 s3 s4)
qed

text \<open>
  Claim C6. A successful attempt removes the client's entry from any table: as registered
  by \<^verbatim>\<open>registerAttempt\<close>, and as left by a login answered 200. Two failures, one success
  and two more failures registered on any table leave the entry
  \<^verbatim>\<open>{ attempts: 2, until: 0 }\<close>, which is not locked at any time; the same five attempts sent
  through the login route by a client that is not locked are answered 401, 401, 200, 401,
  401 and leave the client unlocked.
\<close>

theorem success_clears_history:
  "registerAttempt L ip True now = L(ip := None) \<and>
   (fst (login L s now now' r) = Reply 200 OkTrue \<longrightarrow>
      fst (snd (login L s now now' r)) (client_ip r) = None) \<and>
   registerAttempt (registerAttempt (registerAttempt (registerAttempt (registerAttempt
       L ip False t1) ip False t2) ip True t3) ip False t4) ip False t5 ip
     = Some \<lparr>attempts = 2, until = 0\<rparr> \<and>
   fst (checkLockout (registerAttempt (registerAttempt (registerAttempt (registerAttempt
       (registerAttempt L ip False t1) ip False t2) ip True t3) ip False t4) ip False t5) ip t6)
     = Unlocked \<and>
   (fst (checkLockout L (client_ip rb) t1) = Unlocked \<and> \<not> credentials_ok rb \<and>
    credentials_ok rg \<and> client_ip rg = client_ip rb \<longrightarrow>
      fst (logins L s [(t1, t1', rb), (t2, t2', rb), (t3, t3', rg), (t4, t4', rb), (t5, t5', rb)])
        = [Reply 401 InvalidCredentials, Reply 401 InvalidCredentials, Reply 200 OkTrue,
           Reply 401 InvalidCredentials, Reply 401 InvalidCredentials] \<and>
      fst (checkLockout
             (fst (snd (logins L s [(t1, t1', rb), (t2, t2', rb), (t3, t3', rg), (t4, t4', rb),
                                    (t5, t5', rb)])))
             (client_ip rb) t6) = Unlocked)"
proof -
  have a: "registerAttempt L ip True now = L(ip := None)"
    by (rule registerAttempt_success)
  have b: "fst (login L s now now' r) = Reply 200 OkTrue \<longrightarrow>
      fst (snd (login L s now now' r)) (client_ip r) = None"
    using login_ok_removes_entry by blast
  let ?L5 = "registerAttempt (registerAttempt (registerAttempt (registerAttempt (registerAttempt
       L ip False t1) ip False t2) ip True t3) ip False t4) ip False t5"
  have c: "?L5 ip = Some \<lparr>attempts = 2, until = 0\<rparr>"
    by (simp add: two_failures_after_success)
  have d: "fst (checkLockout ?L5 ip t6) = Unlocked"
    using c by (rule checkLockout_no_lock_set) simp
  have e: "fst (checkLockout L (client_ip rb) t1) = Unlocked \<and> \<not> credentials_ok rb \<and>
    credentials_ok rg \<and> client_ip rg = client_ip rb \<longrightarrow>
      fst (logins L s [(t1, t1', rb), (t2, t2', rb), (t3, t3', rg), (t4, t4', rb), (t5, t5', rb)])
        = [Reply 401 InvalidCredentials, Reply 401 InvalidCredentials, Reply 200 OkTrue,
           Reply 401 InvalidCredentials, Reply 401 InvalidCredentials] \<and>
      fst (checkLockout
             (fst (snd (logins L s [(t1, t1', rb), (t2, t2', rb), (t3, t3', rg), (t4, t4', rb),
                                    (t5, t5', rb)])))
             (client_ip rb) t6) = Unlocked"
  proof (intro impI, elim conjE)
    assume h: "fst (checkLockout L (client_ip rb) t1) = Unlocked" "\<not> credentials_ok rb"
      "credentials_ok rg" "client_ip rg = client_ip rb"
    show "fst (logins L s [(t1, t1', rb), (t2, t2', rb), (t3, t3', rg), (t4, t4', rb), (t5, t5', rb)])
        = [Reply 401 InvalidCredentials, Reply 401 InvalidCredentials, Reply 200 OkTrue,
           Reply 401 InvalidCredentials, Reply 401 InvalidCredentials] \<and>
      fst (checkLockout
             (fst (snd (logins L s [(t1, t1', rb), (t2, t2', rb), (t3, t3', rg), (t4, t4', rb),
                                    (t5, t5', rb)])))
             (client_ip rb) t6) = Unlocked"
      unfolding logins_fail_fail_ok_fail_fail[OF h] by (simp add: checkLockout_def)
  qed
  from a b c d e show ?thesis by (intro conjI)
qed

theorem success_clears_history_witness:
  "fst (login Map.empty \<lparr>user = None\<rparr> 1000 1000 good_req) = Reply 200 OkTrue \<and>
   fst (snd (login Map.empty \<lparr>user = None\<rparr> 1000 1000 good_req)) ''203.0.113.7'' = None \<and>
   fst (checkLockout Map.empty (client_ip bad_req) 1000) = Unlocked \<and> \<not> credentials_ok bad_req \<and>
   credentials_ok good_req \<and> client_ip good_req = client_ip bad_req \<and>
   fst (logins Map.empty \<lparr>user = None\<rparr> [(1000, 1000, bad_req), (2000, 2000, bad_req),
          (3000, 3000, good_req), (4000, 4000, bad_req), (5000, 5000, bad_req)])
     = [Reply 401 InvalidCredentials, Reply 401 InvalidCredentials, Reply 200 OkTrue,
        Reply 401 InvalidCredentials, Reply 401 InvalidCredentials] \<and>
   fst (checkLockout
          (fst (snd (logins Map.empty \<lparr>user = None\<rparr> [(1000, 1000, bad_req), (2000, 2000, bad_req),
             (3000, 3000, good_req), (4000, 4000, bad_req), (5000, 5000, bad_req)])))
          (client_ip bad_req) 6000) = Unlocked"
proof -
  have b: "\<not> credentials_ok bad_req" by (simp add: credentials_ok_def bad_req_def)
  have g: "credentials_ok good_req" by (simp add: credentials_ok_def good_req_def bad_req_def)
  have u: "fst (checkLockout Map.empty (client_ip bad_req) 1000) = Unlocked"
    by (simp add: checkLockout_def)
  have i: "client_ip good_req = client_ip bad_req"
    by (simp add: client_ip_good_req client_ip_bad_req)
  have l: "fst (login Map.empty \<lparr>user = None\<rparr> 1000 1000 good_req) = Reply 200 OkTrue"
    using login_unlocked_ok[of Map.empty good_req 1000 "\<lparr>user = None\<rparr>" 1000] g
    by (simp add: checkLockout_def)
  note th = success_clears_history[of Map.empty "''203.0.113.7''" 1000 "\<lparr>user = None\<rparr>" 1000
      good_req 1000 2000 3000 4000 5000 6000 bad_req good_req 1000 2000 3000 4000 5000]
  show ?thesis using b g u i l th by (simp add: client_ip_good_req)
qed

section \<open>The SMS API: filters and the limit\<close>

lemma toUpperCase_us: "toUpperCase up (units ''us'') = units ''US''"
  by (simp add: toUpperCase_def units_def upper_unit_def)

lemma parseInt_5: "parseInt (units ''5'') = Some 5"
  by (simp add: units_def parseInt_def is_ws_def is_digit_def digits_val_def digit_val_def)

lemma parseInt_0: "parseInt (units ''0'') = Some 0"
  by (simp add: units_def parseInt_def is_ws_def is_digit_def digits_val_def digit_val_def)

lemma parseInt_100: "parseInt (units ''100'') = Some 100"
  by (simp add: units_def parseInt_def is_ws_def is_digit_def digits_val_def digit_val_def)

lemma parseInt_undefined: "parseInt (units ''undefined'') = None"
  by (simp add: units_def parseInt_def is_ws_def is_digit_def digits_val_def digit_val_def)

lemma parseInt_3abc: "parseInt (units ''3abc'') = Some 3"
  by (simp add: units_def parseInt_def is_ws_def is_digit_def digits_val_def digit_val_def)

lemma set_apply_filters: "set (apply_filters up c st rows) \<subseteq> set rows"
  by (auto simp: apply_filters_def Let_def)

lemma apply_filters_country:
  "truthy c \<Longrightarrow> r \<in> set (apply_filters up c st rows) \<Longrightarrow>
   units (country r) = toUpperCase up (the c)"
  by (auto simp: apply_filters_def Let_def split: if_splits)

lemma units_inject: "units a = units b \<Longrightarrow> a = b"
  unfolding units_def by (rule map_injective) (auto simp: inj_on_def)

lemma slice0_nonneg: "0 \<le> n \<Longrightarrow> slice0 xs n = take (nat n) xs"
  by (auto simp: slice0_def Let_def min_def)

lemma slice0_neg: "n < 0 \<Longrightarrow> slice0 xs n = take (length xs - nat (- n)) xs"
proof -
  assume n: "n < 0"
  have "nat (max (int (length xs) + n) 0) = length xs - nat (- n)"
    using n by (simp add: max_def) linarith
  then show ?thesis using n by (simp add: slice0_def Let_def)
qed

lemma limit_of_NaN: "parseInt l = None \<Longrightarrow> limit_of l mx = min 100 mx"
  by (simp add: limit_of_def)

lemma limit_of_zero: "parseInt l = Some 0 \<Longrightarrow> limit_of l mx = min 100 mx"
  by (simp add: limit_of_def)

lemma limit_of_above: "parseInt l = Some n \<Longrightarrow> mx < n \<Longrightarrow> 0 < mx \<Longrightarrow> limit_of l mx = mx"
  by (auto simp: limit_of_def)

lemma limit_of_within: "parseInt l = Some n \<Longrightarrow> 0 < n \<Longrightarrow> n \<le> mx \<Longrightarrow> limit_of l mx = n"
  by (auto simp: limit_of_def)

lemma limit_of_neg: "parseInt l = Some n \<Longrightarrow> n < 0 \<Longrightarrow> 0 < mx \<Longrightarrow> limit_of l mx = n"
  by (auto simp: limit_of_def)

lemma digits_val_acc_nonneg:
  "0 \<le> a \<Longrightarrow> \<forall>c\<in>set ds. is_digit c \<Longrightarrow> 0 \<le> foldl (\<lambda>a c. 10 * a + digit_val c) a ds"
  by (induction ds arbitrary: a) (auto simp: is_digit_def digit_val_def)

lemma digits_val_nonneg: "\<forall>c\<in>set ds. is_digit c \<Longrightarrow> 0 \<le> digits_val ds"
  unfolding digits_val_def by (rule digits_val_acc_nonneg) simp_all

lemma takeWhile_all: "\<forall>c\<in>set ds. P c \<Longrightarrow> takeWhile P ds = ds"
  by (induction ds) auto

lemma digit_not_ws: "is_digit c \<Longrightarrow> \<not> is_ws c"
  by (auto simp: is_digit_def is_ws_def)

lemma sign_not_ws: "\<not> is_ws 43" "\<not> is_ws 45"
  by (simp_all add: is_ws_def)

lemma sign_not_digit: "\<not> is_digit 43" "\<not> is_digit 45"
  by (simp_all add: is_digit_def)

lemma takeWhile_digits_then:
  assumes "\<forall>c\<in>set ds. is_digit c" and "rest = [] \<or> \<not> is_digit (hd rest)"
  shows "takeWhile is_digit (ds @ rest) = ds"
proof -
  have "takeWhile is_digit rest = []"
    using assms(2) by (cases rest) auto
  then show ?thesis using assms(1) by (simp add: takeWhile_append2)
qed

lemma dropWhile_ws_prefix:
  assumes "\<forall>c\<in>set ws. is_ws c" and "xs = [] \<or> \<not> is_ws (hd xs)"
  shows "dropWhile is_ws (ws @ xs) = xs"
proof -
  have "dropWhile is_ws xs = xs"
    using assms(2) by (cases xs) auto
  then show ?thesis using assms(1) by (simp add: dropWhile_append2)
qed

text \<open>
  What \<^verbatim>\<open>parseInt\<close> reads: white space, an optional sign, a run of digits and then anything
  that does not go on with a digit is read as the signed value of the digits.
\<close>

lemma parseInt_leading_integer:
  assumes ws: "\<forall>c\<in>set ws. is_ws c" and sg: "sn \<in> {[], [43], [45]}"
    and ne: "ds \<noteq> []" and dg: "\<forall>c\<in>set ds. is_digit c"
    and rs: "rest = [] \<or> \<not> is_digit (hd rest)"
  shows "parseInt (ws @ sn @ ds @ rest)
           = Some (if sn = [45] then - digits_val ds else digits_val ds)"
proof -
  have hd_ds: "is_digit (hd ds)" using ne dg by (cases ds) auto
  have t: "takeWhile is_digit (ds @ rest) = ds"
    using dg rs by (rule takeWhile_digits_then)
  have nws: "sn @ ds @ rest = [] \<or> \<not> is_ws (hd (sn @ ds @ rest))"
    using sg ne hd_ds by (auto simp: sign_not_ws digit_not_ws)
  have d: "dropWhile is_ws (ws @ sn @ ds @ rest) = sn @ ds @ rest"
    using ws nws by (rule dropWhile_ws_prefix)
  consider "sn = []" | "sn = [43]" | "sn = [45]" using sg by auto
  then show ?thesis
  proof cases
    case 1
    have "hd ds \<noteq> 45 \<and> hd ds \<noteq> 43" using hd_ds sign_not_digit by metis
    then show ?thesis
      unfolding parseInt_def d using 1 ne t by (simp add: Let_def)
  next
    case 2
    then show ?thesis
      unfolding parseInt_def d using ne t by (simp add: Let_def)
  next
    case 3
    then show ?thesis
      unfolding parseInt_def d using ne t by (simp add: Let_def)
  qed
qed

text \<open>White space, an optional sign and then no digit: \<^verbatim>\<open>NaN\<close>.\<close>

lemma parseInt_no_leading_digit:
  assumes ws: "\<forall>c\<in>set ws. is_ws c" and sg: "sn \<in> {[], [43], [45]}"
    and rs: "rest = [] \<or> \<not> is_digit (hd rest)"
    and pl: "sn = [] \<longrightarrow> rest = [] \<or> (\<not> is_ws (hd rest) \<and> hd rest \<noteq> 43 \<and> hd rest \<noteq> 45)"
  shows "parseInt (ws @ sn @ rest) = None"
proof -
  have t: "takeWhile is_digit rest = []"
    using rs by (cases rest) auto
  have nws: "sn @ rest = [] \<or> \<not> is_ws (hd (sn @ rest))"
    using sg pl by (auto simp: sign_not_ws)
  have d: "dropWhile is_ws (ws @ sn @ rest) = sn @ rest"
    using ws nws by (rule dropWhile_ws_prefix)
  consider "sn = []" | "sn = [43]" | "sn = [45]" using sg by auto
  then show ?thesis
  proof cases
    case 1
    then show ?thesis
      unfolding parseInt_def d using pl t by (cases rest) (auto simp: Let_def)
  next
    case 2
    then show ?thesis
      unfolding parseInt_def d using t by (simp add: Let_def)
  next
    case 3
    then show ?thesis
      unfolding parseInt_def d using t by (simp add: Let_def)
  qed
qed

text \<open>Every string has one of the two shapes.\<close>

lemma limit_shapes_exhaustive:
  "(\<exists>ws sn ds rest. l = ws @ sn @ ds @ rest \<and> (\<forall>c\<in>set ws. is_ws c) \<and> sn \<in> {[], [43], [45]} \<and>
       ds \<noteq> [] \<and> (\<forall>c\<in>set ds. is_digit c) \<and> (rest = [] \<or> \<not> is_digit (hd rest))) \<or>
   (\<exists>ws sn rest. l = ws @ sn @ rest \<and> (\<forall>c\<in>set ws. is_ws c) \<and> sn \<in> {[], [43], [45]} \<and>
       (rest = [] \<or> \<not> is_digit (hd rest)) \<and>
       (sn = [] \<longrightarrow> rest = [] \<or> (\<not> is_ws (hd rest) \<and> hd rest \<noteq> 43 \<and> hd rest \<noteq> 45)))"
proof -
  define ws where "ws = takeWhile is_ws l"
  define t where "t = dropWhile is_ws l"
  define sn where "sn = (if t \<noteq> [] \<and> (hd t = 45 \<or> hd t = 43) then [hd t] else [])"
  define v where "v = (if t \<noteq> [] \<and> (hd t = 45 \<or> hd t = 43) then tl t else t)"
  define ds where "ds = takeWhile is_digit v"
  define rest where "rest = dropWhile is_digit v"
  have l: "l = ws @ t" by (simp add: ws_def t_def)
  have tv: "t = sn @ v" by (cases t) (auto simp: sn_def v_def)
  have v: "v = ds @ rest" by (simp add: ds_def rest_def)
  have w: "\<forall>c\<in>set ws. is_ws c" by (auto simp: ws_def dest: set_takeWhileD)
  have sg: "sn \<in> {[], [43], [45]}" by (auto simp: sn_def)
  have dg: "\<forall>c\<in>set ds. is_digit c" by (auto simp: ds_def dest: set_takeWhileD)
  have rs: "rest = [] \<or> \<not> is_digit (hd rest)"
    unfolding rest_def by (metis hd_dropWhile)
  have tw: "t = [] \<or> \<not> is_ws (hd t)"
    unfolding t_def by (metis hd_dropWhile)
  show ?thesis
  proof (cases "ds = []")
    case False
    have "l = ws @ sn @ ds @ rest" using l tv v by simp
    then show ?thesis using w sg False dg rs by blast
  next
    case True
    then have vr: "v = rest" using v by simp
    have pl: "sn = [] \<longrightarrow> rest = [] \<or> (\<not> is_ws (hd rest) \<and> hd rest \<noteq> 43 \<and> hd rest \<noteq> 45)"
    proof
      assume e: "sn = []"
      then have "t = v" using tv by simp
      moreover have "t = [] \<or> (hd t \<noteq> 45 \<and> hd t \<noteq> 43)"
        using e by (auto simp: sn_def split: if_splits)
      ultimately show "rest = [] \<or> (\<not> is_ws (hd rest) \<and> hd rest \<noteq> 43 \<and> hd rest \<noteq> 45)"
        using tw vr by auto
    qed
    have "l = ws @ sn @ rest" using l tv vr by simp
    then show ?thesis using w sg rs pl by blast
  qed
qed

lemma sms_handler_eq:
  "sms_handler up rows q =
     slice0 (apply_filters up (q_country q) (q_status q) rows)
       (limit_of (case q_limit q of None \<Rightarrow> units ''100'' | Some l \<Rightarrow> l) 500)"
  by (simp add: sms_handler_def Let_def)

lemma api_sms_eq:
  "api_sms up rows so q w =
     (if authenticated so then (Reply 200 (Handled (sms_handler up rows q)), w)
      else (Reply 401 (Error ''Unauthorized''), w))"
  by (simp add: api_sms_def requireAuth_def)

lemma api_data_eq:
  "api_data up k rows so key q =
     (if authenticated so \<or> (env_or_null k \<noteq> None \<and> key = env_or_null k)
      then Reply 200 (Handled (slice0 (apply_filters up (q_country q) (q_status q) rows)
                (limit_of (case q_limit q of None \<Rightarrow> units ''undefined'' | Some l \<Rightarrow> l) 1000)))
      else Reply 401 (Error ''Unauthorized''))"
  by (simp add: api_data_def Let_def)

lemma sms_handler_us5:
  "length (sms_handler up rows (us5\<lparr>q_status := st\<rparr>)) \<le> 5 \<and>
   (\<forall>r\<in>set (sms_handler up rows (us5\<lparr>q_status := st\<rparr>)). country r = ''US'' \<and> r \<in> set rows)"
proof -
  let ?out = "apply_filters up (Some (units ''us'')) st rows"
  have h: "sms_handler up rows (us5\<lparr>q_status := st\<rparr>) = take 5 ?out"
    by (simp add: sms_handler_eq us5_def limit_of_def parseInt_5 slice0_nonneg)
  have tr: "truthy (Some (units ''us''))" by (simp add: truthy_def units_def)
  have "country r = ''US''" if "r \<in> set ?out" for r
  proof -
    have "units (country r) = units ''US''"
      using apply_filters_country[OF tr that] by (simp add: toUpperCase_us)
    then show ?thesis by (rule units_inject)
  qed
  moreover have "r \<in> set rows" if "r \<in> set ?out" for r
    using set_apply_filters that by blast
  ultimately show ?thesis
    unfolding h by (auto dest: in_set_takeD)
qed

text \<open>
  Claim C4, as amended. \<^verbatim>\<open>GET /api/sms\<close> answers an authenticated request with the rows its
  handler selects and any other request with 401. For \<^verbatim>\<open>?country=us&limit=5\<close> (with or
  without a status filter) the handler returns at most 5 rows, all of the dataset and all
  with country \<^verbatim>\<open>US\<close>. For every query, the limit is read as \<^verbatim>\<open>parseInt\<close> reads it. A limit
  made of white space, an optional sign, a run of decimal digits and then anything that does
  not go on with a digit is read as the signed value of the digits, whatever follows them:
  above the maximum it gives the first 500 filtered rows (1000 on \<^verbatim>\<open>/api/data\<close>), from 1 to
  the maximum it gives that many. A limit made of white space, an optional sign and then no
  digit, or an absent limit, gives the first 100. Every limit has one of these two shapes
  (\<open>limit_shapes_exhaustive\<close>).
\<close>

theorem sms_country_limit:
  "api_sms up rows so q w =
     (if authenticated so then (Reply 200 (Handled (sms_handler up rows q)), w)
      else (Reply 401 (Error ''Unauthorized''), w)) \<and>
   length (sms_handler up rows (us5\<lparr>q_status := st\<rparr>)) \<le> 5 \<and>
   (\<forall>r\<in>set (sms_handler up rows (us5\<lparr>q_status := st\<rparr>)). country r = ''US'' \<and> r \<in> set rows) \<and>
   ((\<forall>c\<in>set ws. is_ws c) \<and> sn \<in> {[], [43], [45]} \<and> ds \<noteq> [] \<and> (\<forall>c\<in>set ds. is_digit c) \<and>
    (rest = [] \<or> \<not> is_digit (hd rest)) \<longrightarrow>
      parseInt (ws @ sn @ ds @ rest) = Some (if sn = [45] then - digits_val ds else digits_val ds) \<and>
      (sn \<noteq> [45] \<and> 500 < digits_val ds \<longrightarrow>
         sms_handler up rows (q\<lparr>q_limit := Some (ws @ sn @ ds @ rest)\<rparr>)
           = take 500 (apply_filters up (q_country q) (q_status q) rows)) \<and>
      (sn \<noteq> [45] \<and> 0 < digits_val ds \<and> digits_val ds \<le> 500 \<longrightarrow>
         sms_handler up rows (q\<lparr>q_limit := Some (ws @ sn @ ds @ rest)\<rparr>)
           = take (nat (digits_val ds)) (apply_filters up (q_country q) (q_status q) rows)) \<and>
      (authenticated so \<and> sn \<noteq> [45] \<and> 1000 < digits_val ds \<longrightarrow>
         api_data up k rows so key (q\<lparr>q_limit := Some (ws @ sn @ ds @ rest)\<rparr>)
           = Reply 200 (Handled (take 1000 (apply_filters up (q_country q) (q_status q) rows)))) \<and>
      (authenticated so \<and> sn \<noteq> [45] \<and> 0 < digits_val ds \<and> digits_val ds \<le> 1000 \<longrightarrow>
         api_data up k rows so key (q\<lparr>q_limit := Some (ws @ sn @ ds @ rest)\<rparr>)
           = Reply 200 (Handled (take (nat (digits_val ds))
                                   (apply_filters up (q_country q) (q_status q) rows))))) \<and>
   ((\<forall>c\<in>set ws. is_ws c) \<and> sn \<in> {[], [43], [45]} \<and> (rest = [] \<or> \<not> is_digit (hd rest)) \<and>
    (sn = [] \<longrightarrow> rest = [] \<or> (\<not> is_ws (hd rest) \<and> hd rest \<noteq> 43 \<and> hd rest \<noteq> 45)) \<longrightarrow>
      parseInt (ws @ sn @ rest) = None \<and>
      sms_handler up rows (q\<lparr>q_limit := Some (ws @ sn @ rest)\<rparr>)
        = take 100 (apply_filters up (q_country q) (q_status q) rows) \<and>
      (authenticated so \<longrightarrow>
         api_data up k rows so key (q\<lparr>q_limit := Some (ws @ sn @ rest)\<rparr>)
           = Reply 200 (Handled (take 100 (apply_filters up (q_country q) (q_status q) rows))))) \<and>
   sms_handler up rows (q\<lparr>q_limit := None\<rparr>)
     = take 100 (apply_filters up (q_country q) (q_status q) rows) \<and>
   (authenticated so \<longrightarrow>
      api_data up k rows so key (q\<lparr>q_limit := None\<rparr>)
        = Reply 200 (Handled (take 100 (apply_filters up (q_country q) (q_status q) rows))))"
proof -
  let ?out = "apply_filters up (q_country q) (q_status q) rows"
  have A: "parseInt (ws @ sn @ ds @ rest) = Some (if sn = [45] then - digits_val ds else digits_val ds) \<and>
      (sn \<noteq> [45] \<and> 500 < digits_val ds \<longrightarrow>
         sms_handler up rows (q\<lparr>q_limit := Some (ws @ sn @ ds @ rest)\<rparr>) = take 500 ?out) \<and>
      (sn \<noteq> [45] \<and> 0 < digits_val ds \<and> digits_val ds \<le> 500 \<longrightarrow>
         sms_handler up rows (q\<lparr>q_limit := Some (ws @ sn @ ds @ rest)\<rparr>)
           = take (nat (digits_val ds)) ?out) \<and>
      (authenticated so \<and> sn \<noteq> [45] \<and> 1000 < digits_val ds \<longrightarrow>
         api_data up k rows so key (q\<lparr>q_limit := Some (ws @ sn @ ds @ rest)\<rparr>)
           = Reply 200 (Handled (take 1000 ?out))) \<and>
      (authenticated so \<and> sn \<noteq> [45] \<and> 0 < digits_val ds \<and> digits_val ds \<le> 1000 \<longrightarrow>
         api_data up k rows so key (q\<lparr>q_limit := Some (ws @ sn @ ds @ rest)\<rparr>)
           = Reply 200 (Handled (take (nat (digits_val ds)) ?out)))"
    if h: "\<forall>c\<in>set ws. is_ws c" "sn \<in> {[], [43], [45]}" "ds \<noteq> []" "\<forall>c\<in>set ds. is_digit c"
      "rest = [] \<or> \<not> is_digit (hd rest)"
  proof -
    let ?l = "ws @ sn @ ds @ rest"
    have p: "parseInt ?l = Some (if sn = [45] then - digits_val ds else digits_val ds)"
      using h by (rule parseInt_leading_integer)
    have p': "parseInt ?l = Some (digits_val ds)" if "sn \<noteq> [45]"
      using p that by simp
    have a5: "sms_handler up rows (q\<lparr>q_limit := Some ?l\<rparr>) = take 500 ?out"
      if "sn \<noteq> [45]" "500 < digits_val ds"
      using p'[OF that(1)] that(2) by (simp add: sms_handler_eq limit_of_above slice0_nonneg)
    have w5: "sms_handler up rows (q\<lparr>q_limit := Some ?l\<rparr>) = take (nat (digits_val ds)) ?out"
      if "sn \<noteq> [45]" "0 < digits_val ds" "digits_val ds \<le> 500"
      using p'[OF that(1)] that(2,3) by (simp add: sms_handler_eq limit_of_within slice0_nonneg)
    have a10: "api_data up k rows so key (q\<lparr>q_limit := Some ?l\<rparr>) = Reply 200 (Handled (take 1000 ?out))"
      if "authenticated so" "sn \<noteq> [45]" "1000 < digits_val ds"
      using p'[OF that(2)] that(1,3) by (simp add: api_data_eq limit_of_above slice0_nonneg)
    have w10: "api_data up k rows so key (q\<lparr>q_limit := Some ?l\<rparr>)
                 = Reply 200 (Handled (take (nat (digits_val ds)) ?out))"
      if "authenticated so" "sn \<noteq> [45]" "0 < digits_val ds" "digits_val ds \<le> 1000"
      using p'[OF that(2)] that(1,3,4) by (simp add: api_data_eq limit_of_within slice0_nonneg)
    from p a5 w5 a10 w10 show ?thesis by (intro conjI impI) auto
  qed
  have B: "parseInt (ws @ sn @ rest) = None \<and>
      sms_handler up rows (q\<lparr>q_limit := Some (ws @ sn @ rest)\<rparr>) = take 100 ?out \<and>
      (authenticated so \<longrightarrow>
         api_data up k rows so key (q\<lparr>q_limit := Some (ws @ sn @ rest)\<rparr>)
           = Reply 200 (Handled (take 100 ?out)))"
    if h: "\<forall>c\<in>set ws. is_ws c" "sn \<in> {[], [43], [45]}" "rest = [] \<or> \<not> is_digit (hd rest)"
      "sn = [] \<longrightarrow> rest = [] \<or> (\<not> is_ws (hd rest) \<and> hd rest \<noteq> 43 \<and> hd rest \<noteq> 45)"
  proof -
    have p: "parseInt (ws @ sn @ rest) = None"
      using h by (rule parseInt_no_leading_digit)
    then show ?thesis
      by (simp add: sms_handler_eq api_data_eq limit_of_NaN slice0_nonneg)
  qed
  have c: "sms_handler up rows (q\<lparr>q_limit := None\<rparr>) = take 100 ?out"
    by (simp add: sms_handler_eq limit_of_def parseInt_100 slice0_nonneg)
  have f: "api_data up k rows so key (q\<lparr>q_limit := None\<rparr>) = Reply 200 (Handled (take 100 ?out))"
    if "authenticated so"
    using that by (simp add: api_data_eq limit_of_NaN parseInt_undefined slice0_nonneg)
  have A': "(\<forall>c\<in>set ws. is_ws c) \<and> sn \<in> {[], [43], [45]} \<and> ds \<noteq> [] \<and> (\<forall>c\<in>set ds. is_digit c) \<and>
    (rest = [] \<or> \<not> is_digit (hd rest)) \<longrightarrow>
      parseInt (ws @ sn @ ds @ rest) = Some (if sn = [45] then - digits_val ds else digits_val ds) \<and>
      (sn \<noteq> [45] \<and> 500 < digits_val ds \<longrightarrow>
         sms_handler up rows (q\<lparr>q_limit := Some (ws @ sn @ ds @ rest)\<rparr>) = take 500 ?out) \<and>
      (sn \<noteq> [45] \<and> 0 < digits_val ds \<and> digits_val ds \<le> 500 \<longrightarrow>
         sms_handler up rows (q\<lparr>q_limit := Some (ws @ sn @ ds @ rest)\<rparr>)
           = take (nat (digits_val ds)) ?out) \<and>
      (authenticated so \<and> sn \<noteq> [45] \<and> 1000 < digits_val ds \<longrightarrow>
         api_data up k rows so key (q\<lparr>q_limit := Some (ws @ sn @ ds @ rest)\<rparr>)
           = Reply 200 (Handled (take 1000 ?out))) \<and>
      (authenticated so \<and> sn \<noteq> [45] \<and> 0 < digits_val ds \<and> digits_val ds \<le> 1000 \<longrightarrow>
         api_data up k rows so key (q\<lparr>q_limit := Some (ws @ sn @ ds @ rest)\<rparr>)
           = Reply 200 (Handled (take (nat (digits_val ds)) ?out)))"
  proof (intro impI, elim conjE)
    assume "\<forall>c\<in>set ws. is_ws c" "sn \<in> {[], [43], [45]}" "ds \<noteq> []" "\<forall>c\<in>set ds. is_digit c"
      "rest = [] \<or> \<not> is_digit (hd rest)"
    then show "parseInt (ws @ sn @ ds @ rest) = Some (if sn = [45] then - digits_val ds else digits_val ds) \<and>
      (sn \<noteq> [45] \<and> 500 < digits_val ds \<longrightarrow>
         sms_handler up rows (q\<lparr>q_limit := Some (ws @ sn @ ds @ rest)\<rparr>) = take 500 ?out) \<and>
      (sn \<noteq> [45] \<and> 0 < digits_val ds \<and> digits_val ds \<le> 500 \<longrightarrow>
         sms_handler up rows (q\<lparr>q_limit := Some (ws @ sn @ ds @ rest)\<rparr>)
           = take (nat (digits_val ds)) ?out) \<and>
      (authenticated so \<and> sn \<noteq> [45] \<and> 1000 < digits_val ds \<longrightarrow>
         api_data up k rows so key (q\<lparr>q_limit := Some (ws @ sn @ ds @ rest)\<rparr>)
           = Reply 200 (Handled (take 1000 ?out))) \<and>
      (authenticated so \<and> sn \<noteq> [45] \<and> 0 < digits_val ds \<and> digits_val ds \<le> 1000 \<longrightarrow>
         api_data up k rows so key (q\<lparr>q_limit := Some (ws @ sn @ ds @ rest)\<rparr>)
           = Reply 200 (Handled (take (nat (digits_val ds)) ?out)))"
      by (rule A)
  qed
  have B': "(\<forall>c\<in>set ws. is_ws c) \<and> sn \<in> {[], [43], [45]} \<and> (rest = [] \<or> \<not> is_digit (hd rest)) \<and>
    (sn = [] \<longrightarrow> rest = [] \<or> (\<not> is_ws (hd rest) \<and> hd rest \<noteq> 43 \<and> hd rest \<noteq> 45)) \<longrightarrow>
      parseInt (ws @ sn @ rest) = None \<and>
      sms_handler up rows (q\<lparr>q_limit := Some (ws @ sn @ rest)\<rparr>) = take 100 ?out \<and>
      (authenticated so \<longrightarrow>
         api_data up k rows so key (q\<lparr>q_limit := Some (ws @ sn @ rest)\<rparr>)
           = Reply 200 (Handled (take 100 ?out)))"
  proof (intro impI, elim conjE)
    assume "\<forall>c\<in>set ws. is_ws c" "sn \<in> {[], [43], [45]}" "rest = [] \<or> \<not> is_digit (hd rest)"
      "sn = [] \<longrightarrow> rest = [] \<or> (\<not> is_ws (hd rest) \<and> hd rest \<noteq> 43 \<and> hd rest \<noteq> 45)"
    then show "parseInt (ws @ sn @ rest) = None \<and>
      sms_handler up rows (q\<lparr>q_limit := Some (ws @ sn @ rest)\<rparr>) = take 100 ?out \<and>
      (authenticated so \<longrightarrow>
         api_data up k rows so key (q\<lparr>q_limit := Some (ws @ sn @ rest)\<rparr>)
           = Reply 200 (Handled (take 100 ?out)))"
      by (rule B)
  qed
  have f': "authenticated so \<longrightarrow>
      api_data up k rows so key (q\<lparr>q_limit := None\<rparr>) = Reply 200 (Handled (take 100 ?out))"
    using f by blast
  from api_sms_eq[of up rows so q w] sms_handler_us5[of up rows st, THEN conjunct1]
    sms_handler_us5[of up rows st, THEN conjunct2] A' B' c f'
  show ?thesis by (intro conjI)
qed

theorem sms_country_limit_witness:
  "authenticated some_session \<and>
   api_sms plain_up sample_rows some_session us5 ()
     = (Reply 200 (Handled (sms_handler plain_up sample_rows us5)), ()) \<and>
   map id_of (sms_handler plain_up sample_rows us5) = [1, 3, 4, 5, 7] \<and>
   length (sms_handler plain_up sample_rows us5) \<le> 5 \<and>
   map country (sms_handler plain_up sample_rows us5) = [''US'', ''US'', ''US'', ''US'', ''US''] \<and>
   is_ws 160 \<and> [43] \<in> {[], [43], [45 :: nat]} \<and> units ''9999'' \<noteq> [] \<and>
   list_all is_digit (units ''9999'') \<and> \<not> is_digit (hd (units ''px'')) \<and>
   digits_val (units ''9999'') = 9999 \<and>
   parseInt ([160] @ [43] @ units ''9999'' @ units ''px'') = Some 9999 \<and>
   sms_handler plain_up sample_rows (all_q\<lparr>q_limit := Some ([160] @ [43] @ units ''9999'' @ units ''px'')\<rparr>)
     = take 500 sample_rows \<and>
   api_data plain_up None sample_rows some_session None
       (all_q\<lparr>q_limit := Some ([160] @ [43] @ units ''9999'' @ units ''px'')\<rparr>)
     = Reply 200 (Handled (take 1000 sample_rows)) \<and>
   digits_val (units ''3'') = 3 \<and>
   sms_handler plain_up sample_rows (all_q\<lparr>q_limit := Some ([] @ [] @ units ''3'' @ units ''abc'')\<rparr>)
     = take 3 sample_rows \<and>
   \<not> is_digit (hd (units ''abc'')) \<and> \<not> is_ws (hd (units ''abc'')) \<and>
   parseInt ([] @ [] @ units ''abc'') = None \<and>
   sms_handler plain_up sample_rows (all_q\<lparr>q_limit := Some ([] @ [] @ units ''abc'')\<rparr>)
     = take 100 sample_rows \<and>
   api_data plain_up None sample_rows some_session None (all_q\<lparr>q_limit := Some ([] @ [] @ units ''abc'')\<rparr>)
     = Reply 200 (Handled (take 100 sample_rows)) \<and>
   sms_handler plain_up sample_rows (all_q\<lparr>q_limit := None\<rparr>) = take 100 sample_rows"
proof -
  have au: "authenticated some_session"
    by (simp add: authenticated_def some_session_def)
  have f: "apply_filters plain_up (q_country all_q) (q_status all_q) sample_rows = sample_rows"
    by (simp add: apply_filters_def all_q_def truthy_def)
  have u: "us5\<lparr>q_status := None\<rparr> = us5" by (simp add: us5_def)
  have ev: "map id_of (sms_handler plain_up sample_rows us5) = [1, 3, 4, 5, 7]"
    by (simp add: sms_handler_eq us5_def limit_of_def parseInt_5 slice0_nonneg apply_filters_def
        truthy_def toUpperCase_us sample_rows_def row_def)
       (simp add: units_def)
  have ec: "map country (sms_handler plain_up sample_rows us5) = [''US'', ''US'', ''US'', ''US'', ''US'']"
    by (simp add: sms_handler_eq us5_def limit_of_def parseInt_5 slice0_nonneg apply_filters_def
        truthy_def toUpperCase_us sample_rows_def row_def)
       (simp add: units_def)
  have w: "is_ws 160" by (simp add: is_ws_def)
  have w': "\<forall>c\<in>set [160]. is_ws c" using w by simp
  have e': "\<forall>c\<in>set ([] :: nat list). is_ws c" by simp
  have s: "[43] \<in> {[], [43], [45 :: nat]}" "[] \<in> {[], [43], [45 :: nat]}" by simp_all
  have n9: "units ''9999'' \<noteq> []" and n3: "units ''3'' \<noteq> []" by (simp_all add: units_def)
  have d9: "\<forall>c\<in>set (units ''9999''). is_digit c" and d3: "\<forall>c\<in>set (units ''3''). is_digit c"
    by (simp_all add: units_def is_digit_def)
  have l9: "list_all is_digit (units ''9999'')" using d9 by (simp add: list_all_iff)
  have rp: "\<not> is_digit (hd (units ''px''))" by (simp add: units_def is_digit_def)
  have ra: "\<not> is_digit (hd (units ''abc''))" "\<not> is_ws (hd (units ''abc''))"
    "hd (units ''abc'') \<noteq> 43" "hd (units ''abc'') \<noteq> 45"
    by (simp_all add: units_def is_digit_def is_ws_def)
  have v9: "digits_val (units ''9999'') = 9999" and v3: "digits_val (units ''3'') = 3"
    by (simp_all add: units_def digits_val_def digit_val_def)
  note th0 = sms_country_limit[where up = plain_up and rows = sample_rows and so = some_session
      and q = us5 and w = "()" and st = None and ws = "[160]" and sn = "[43]"
      and ds = "units ''9999''" and rest = "units ''px''" and k = None and key = None]
  note th1 = sms_country_limit[where up = plain_up and rows = sample_rows and so = some_session
      and q = all_q and w = "()" and st = None and ws = "[160]" and sn = "[43]"
      and ds = "units ''9999''" and rest = "units ''px''" and k = None and key = None]
  note th2 = sms_country_limit[where up = plain_up and rows = sample_rows and so = some_session
      and q = all_q and w = "()" and st = None and ws = "[]" and sn = "[]"
      and ds = "units ''3''" and rest = "units ''abc''" and k = None and key = None]
  have c0: "api_sms plain_up sample_rows some_session us5 ()
     = (Reply 200 (Handled (sms_handler plain_up sample_rows us5)), ())"
    using th0 au by simp
  have c0l: "length (sms_handler plain_up sample_rows us5) \<le> 5"
    using th0 u by simp
  have p1: "(\<forall>c\<in>set [160]. is_ws c) \<and> [43] \<in> {[], [43], [45 :: nat]} \<and> units ''9999'' \<noteq> [] \<and>
     (\<forall>c\<in>set (units ''9999''). is_digit c) \<and> (units ''px'' = [] \<or> \<not> is_digit (hd (units ''px'')))"
    using w' s n9 d9 rp by blast
  have big: "(500::int) < digits_val (units ''9999'')" "(1000::int) < digits_val (units ''9999'')"
    by (simp_all add: v9)
  have sn1: "[43] \<noteq> [45 :: nat]" by simp
  have c1p: "parseInt ([160] @ [43] @ units ''9999'' @ units ''px'') = Some 9999"
    using th1 p1 v9 by simp
  have c1a: "sms_handler plain_up sample_rows (all_q\<lparr>q_limit := Some ([160] @ [43] @ units ''9999'' @ units ''px'')\<rparr>)
     = take 500 sample_rows"
    using th1 p1 big sn1 unfolding f by blast
  have c1b: "api_data plain_up None sample_rows some_session None
       (all_q\<lparr>q_limit := Some ([160] @ [43] @ units ''9999'' @ units ''px'')\<rparr>)
     = Reply 200 (Handled (take 1000 sample_rows))"
    using th1 p1 big sn1 au unfolding f by blast
  have p2: "(\<forall>c\<in>set ([] :: nat list). is_ws c) \<and> [] \<in> {[], [43], [45 :: nat]} \<and> units ''3'' \<noteq> [] \<and>
     (\<forall>c\<in>set (units ''3''). is_digit c) \<and> (units ''abc'' = [] \<or> \<not> is_digit (hd (units ''abc'')))"
    using e' s n3 d3 ra by blast
  have small: "(0::int) < digits_val (units ''3'')" "digits_val (units ''3'') \<le> (500::int)"
    by (simp_all add: v3)
  have sn2: "[] \<noteq> [45 :: nat]" by simp
  have c2: "sms_handler plain_up sample_rows (all_q\<lparr>q_limit := Some ([] @ [] @ units ''3'' @ units ''abc'')\<rparr>)
     = take (nat (digits_val (units ''3''))) sample_rows"
    using th2 p2 small sn2 unfolding f by blast
  have c2': "sms_handler plain_up sample_rows (all_q\<lparr>q_limit := Some ([] @ [] @ units ''3'' @ units ''abc'')\<rparr>)
     = take 3 sample_rows"
    using c2 unfolding v3 by simp
  have p3: "(\<forall>c\<in>set ([] :: nat list). is_ws c) \<and> [] \<in> {[], [43], [45 :: nat]} \<and>
     (units ''abc'' = [] \<or> \<not> is_digit (hd (units ''abc''))) \<and>
     (([] :: nat list) = [] \<longrightarrow> units ''abc'' = [] \<or>
        (\<not> is_ws (hd (units ''abc'')) \<and> hd (units ''abc'') \<noteq> 43 \<and> hd (units ''abc'') \<noteq> 45))"
    using e' s ra by blast
  have c3p: "parseInt ([] @ [] @ units ''abc'') = None"
    using th2 p3 by blast
  have c3a: "sms_handler plain_up sample_rows (all_q\<lparr>q_limit := Some ([] @ [] @ units ''abc'')\<rparr>)
     = take 100 sample_rows"
    using th2 p3 unfolding f by blast
  have c3b: "api_data plain_up None sample_rows some_session None (all_q\<lparr>q_limit := Some ([] @ [] @ units ''abc'')\<rparr>)
     = Reply 200 (Handled (take 100 sample_rows))"
    using th2 p3 au unfolding f by blast
  have c4: "sms_handler plain_up sample_rows (all_q\<lparr>q_limit := None\<rparr>) = take 100 sample_rows"
    using th2 unfolding f by blast
  from au c0 ev c0l ec w s(1) n9 l9 rp v9 c1p c1a c1b v3 c2' ra(1,2) c3p c3a c3b c4
  show ?thesis by (intro conjI)
qed

text \<open>
  Claim C4 as first stated has a non-numeric limit default to 100. The limit \<^verbatim>\<open>3abc\<close> is not
  a number, and \<^verbatim>\<open>parseInt\<close> reads it as 3: of the eight rows the handler returns three,
  where the default of 100 returns all eight.
\<close>

theorem limit_with_trailing_text_counterexample:
  "parseInt (units ''3abc'') = Some 3 \<and>
   sms_handler plain_up sample_rows (all_q\<lparr>q_limit := Some (units ''3abc'')\<rparr>) = take 3 sample_rows \<and>
   length (take 3 sample_rows) = 3 \<and>
   sms_handler plain_up sample_rows (all_q\<lparr>q_limit := None\<rparr>) = take 100 sample_rows \<and>
   length (take 100 sample_rows) = 8"
proof -
  have f: "apply_filters plain_up (q_country all_q) (q_status all_q) sample_rows = sample_rows"
    by (simp add: apply_filters_def all_q_def truthy_def)
  have a: "sms_handler plain_up sample_rows (all_q\<lparr>q_limit := Some (units ''3abc'')\<rparr>) = take 3 sample_rows"
    using f by (simp add: sms_handler_eq limit_of_def parseInt_3abc slice0_nonneg)
  have b: "sms_handler plain_up sample_rows (all_q\<lparr>q_limit := None\<rparr>) = take 100 sample_rows"
    using f by (simp add: sms_handler_eq limit_of_def parseInt_100 slice0_nonneg)
  have l: "length (take 3 sample_rows) = 3" "length (take 100 sample_rows) = 8"
    by (simp_all add: sample_rows_def)
  from parseInt_3abc a l(1) b l(2) show ?thesis by (intro conjI)
qed

lemma parseInt_minus_digits:
  assumes "ds \<noteq> []" and "\<forall>c\<in>set ds. is_digit c"
  shows "parseInt (units ''-'' @ ds) = Some (- digits_val ds)"
proof -
  have m: "units ''-'' = [45]" by (simp add: units_def)
  have "parseInt ([] @ [45] @ ds @ []) = Some (if [45] = [45 :: nat] then - digits_val ds else digits_val ds)"
    using assms by (intro parseInt_leading_integer) simp_all
  then show ?thesis by (simp add: m)
qed

text \<open>
  Claim C10. On \<^verbatim>\<open>GET /api/sms\<close> and \<^verbatim>\<open>GET /api/data\<close>, \<^verbatim>\<open>limit=0\<close> gives the first 100
  filtered rows, and a limit written as a minus sign and decimal digits of value \<open>k > 0\<close>
  is read as \<open>- k\<close> and gives the filtered rows without the last \<open>k\<close>.
\<close>

theorem limit_zero_and_negative:
  "sms_handler up rows (q\<lparr>q_limit := Some (units ''0'')\<rparr>)
     = take 100 (apply_filters up (q_country q) (q_status q) rows) \<and>
   (ds \<noteq> [] \<and> (\<forall>c\<in>set ds. is_digit c) \<and> digits_val ds \<noteq> 0 \<longrightarrow>
      parseInt (units ''-'' @ ds) = Some (- digits_val ds) \<and> - digits_val ds < 0 \<and>
      sms_handler up rows (q\<lparr>q_limit := Some (units ''-'' @ ds)\<rparr>)
        = take (length (apply_filters up (q_country q) (q_status q) rows) - nat (digits_val ds))
            (apply_filters up (q_country q) (q_status q) rows)) \<and>
   (authenticated so \<longrightarrow>
      api_data up k rows so key (q\<lparr>q_limit := Some (units ''0'')\<rparr>)
        = Reply 200 (Handled (take 100 (apply_filters up (q_country q) (q_status q) rows))) \<and>
      (ds \<noteq> [] \<and> (\<forall>c\<in>set ds. is_digit c) \<and> digits_val ds \<noteq> 0 \<longrightarrow>
         api_data up k rows so key (q\<lparr>q_limit := Some (units ''-'' @ ds)\<rparr>)
           = Reply 200 (Handled
               (take (length (apply_filters up (q_country q) (q_status q) rows) - nat (digits_val ds))
                  (apply_filters up (q_country q) (q_status q) rows)))))"
proof -
  let ?out = "apply_filters up (q_country q) (q_status q) rows"
  have z: "sms_handler up rows (q\<lparr>q_limit := Some (units ''0'')\<rparr>) = take 100 ?out"
    by (simp add: sms_handler_eq limit_of_zero parseInt_0 slice0_nonneg)
  have zd: "api_data up k rows so key (q\<lparr>q_limit := Some (units ''0'')\<rparr>) = Reply 200 (Handled (take 100 ?out))"
    if "authenticated so"
    using that by (simp add: api_data_eq limit_of_zero parseInt_0 slice0_nonneg)
  have n: "parseInt (units ''-'' @ ds) = Some (- digits_val ds) \<and> - digits_val ds < 0 \<and>
      sms_handler up rows (q\<lparr>q_limit := Some (units ''-'' @ ds)\<rparr>) = take (length ?out - nat (digits_val ds)) ?out \<and>
      (authenticated so \<longrightarrow> api_data up k rows so key (q\<lparr>q_limit := Some (units ''-'' @ ds)\<rparr>)
           = Reply 200 (Handled (take (length ?out - nat (digits_val ds)) ?out)))"
    if h: "ds \<noteq> []" "\<forall>c\<in>set ds. is_digit c" "digits_val ds \<noteq> 0"
  proof -
    have p: "parseInt (units ''-'' @ ds) = Some (- digits_val ds)"
      using h(1,2) by (rule parseInt_minus_digits)
    have neg: "- digits_val ds < 0"
      using digits_val_nonneg[OF h(2)] h(3) by simp
    have l5: "limit_of (units ''-'' @ ds) 500 = - digits_val ds"
      using p neg by (simp add: limit_of_neg)
    have l10: "limit_of (units ''-'' @ ds) 1000 = - digits_val ds"
      using p neg by (simp add: limit_of_neg)
    have s: "slice0 ?out (- digits_val ds) = take (length ?out - nat (digits_val ds)) ?out"
      using slice0_neg[OF neg, of ?out] by simp
    show ?thesis
      using p neg by (simp add: sms_handler_eq api_data_eq l5 l10 s)
  qed
  show ?thesis using z zd n by blast
qed

theorem limit_zero_and_negative_witness:
  "sms_handler plain_up sample_rows (all_q\<lparr>q_limit := Some (units ''0'')\<rparr>) = take 100 sample_rows \<and>
   units ''3'' \<noteq> [] \<and> list_all is_digit (units ''3'') \<and> digits_val (units ''3'') = 3 \<and>
   parseInt (units ''-'' @ units ''3'') = Some (- 3) \<and>
   map id_of (sms_handler plain_up sample_rows (all_q\<lparr>q_limit := Some (units ''-'' @ units ''3'')\<rparr>))
     = [1, 2, 3, 4, 5] \<and>
   authenticated some_session \<and>
   api_data plain_up None sample_rows some_session None (all_q\<lparr>q_limit := Some (units ''0'')\<rparr>)
     = Reply 200 (Handled (take 100 sample_rows)) \<and>
   api_data plain_up None sample_rows some_session None (all_q\<lparr>q_limit := Some (units ''-'' @ units ''3'')\<rparr>)
     = Reply 200 (Handled (take 5 sample_rows))"
proof -
  have au: "authenticated some_session"
    by (simp add: authenticated_def some_session_def)
  have f: "apply_filters plain_up (q_country all_q) (q_status all_q) sample_rows = sample_rows"
    by (simp add: apply_filters_def all_q_def truthy_def)
  have n: "units ''3'' \<noteq> []" by (simp add: units_def)
  have d: "\<forall>c\<in>set (units ''3''). is_digit c" by (simp add: units_def is_digit_def)
  have dl: "list_all is_digit (units ''3'')" using d by (simp add: list_all_iff)
  have v: "digits_val (units ''3'') = 3" by (simp add: units_def digits_val_def digit_val_def)
  have v0: "digits_val (units ''3'') \<noteq> 0" using v by simp
  have len: "length sample_rows - nat (digits_val (units ''3'')) = 5"
    by (simp add: v sample_rows_def)
  have t: "map id_of (take 5 sample_rows) = [1, 2, 3, 4, 5]"
    by (simp add: sample_rows_def row_def)
  note th = limit_zero_and_negative[where up = plain_up and rows = sample_rows and q = all_q
      and ds = "units ''3''" and so = some_session and k = None and key = None, unfolded f len]
  have c1: "sms_handler plain_up sample_rows (all_q\<lparr>q_limit := Some (units ''0'')\<rparr>) = take 100 sample_rows"
    using th by blast
  have c2: "parseInt (units ''-'' @ units ''3'') = Some (- digits_val (units ''3''))"
    using th n d v0 by blast
  have c2': "parseInt (units ''-'' @ units ''3'') = Some (- 3)"
    using c2 unfolding v .
  have c3: "sms_handler plain_up sample_rows (all_q\<lparr>q_limit := Some (units ''-'' @ units ''3'')\<rparr>)
              = take 5 sample_rows"
    using th n d v0 by blast
  have c3': "map id_of (sms_handler plain_up sample_rows (all_q\<lparr>q_limit := Some (units ''-'' @ units ''3'')\<rparr>))
     = [1, 2, 3, 4, 5]"
    unfolding c3 by (rule t)
  have c4: "api_data plain_up None sample_rows some_session None (all_q\<lparr>q_limit := Some (units ''0'')\<rparr>)
     = Reply 200 (Handled (take 100 sample_rows))"
    using th au by blast
  have c5: "api_data plain_up None sample_rows some_session None (all_q\<lparr>q_limit := Some (units ''-'' @ units ''3'')\<rparr>)
     = Reply 200 (Handled (take 5 sample_rows))"
    using th au n d v0 by blast
  from c1 n dl v c2' c3' au c4 c5 show ?thesis by (intro conjI)
qed

section \<open>The MCP bridge\<close>

lemma seed_row_latency:
  assumes "0 \<le> rnd (5 * i + 3)" and "rnd (5 * i + 3) < 1"
  shows "100 \<le> latency_ms (seed_row rnd clk i) \<and> latency_ms (seed_row rnd clk i) < 3100"
proof -
  let ?r = "rnd (5 * i + 3)"
  have lo: "0 \<le> \<lfloor>?r * 3000\<rfloor>" using assms(1) by simp
  have "?r * 3000 < 3000" using assms(2) by simp
  then have hi: "\<lfloor>?r * 3000\<rfloor> < 3000" by (simp add: floor_less_iff)
  show ?thesis using lo hi by (simp add: seed_row_def)
qed

lemma smsData_length: "length (smsData rnd clk) = 500"
  by (simp add: smsData_def)

lemma smsData_latency:
  assumes "\<forall>k. 0 \<le> rnd k \<and> rnd k < 1" and "r \<in> set (smsData rnd clk)"
  shows "100 \<le> latency_ms r \<and> latency_ms r < 3100"
proof -
  obtain i where "r = seed_row rnd clk i"
    using assms(2) by (auto simp: smsData_def)
  then show ?thesis using seed_row_latency[of rnd i clk] assms(1) by simp
qed

lemma foldl_latency:
  "foldl (\<lambda>a b. a + latency_ms b) a out = a + sum_list (map latency_ms out)"
  by (induction out arbitrary: a) simp_all

lemma sum_list_lower: "\<forall>x\<in>set xs. lo \<le> f x \<Longrightarrow> lo * int (length xs) \<le> sum_list (map f xs)"
  by (induction xs) (auto simp: algebra_simps)

lemma sum_list_upper: "\<forall>x\<in>set xs. f x \<le> hi \<Longrightarrow> sum_list (map f xs) \<le> hi * int (length xs)"
  by (induction xs) (auto simp: algebra_simps)

lemma three_counts:
  assumes "\<And>x. \<not> (P x \<and> Q x)" "\<And>x. \<not> (P x \<and> R x)" "\<And>x. \<not> (Q x \<and> R x)"
  shows "length (filter P xs) + length (filter Q xs) + length (filter R xs) \<le> length xs"
  using assms by (induction xs) auto

lemma compute_kpis_counts:
  "delivered (compute_kpis out) + failed (compute_kpis out) + blocked (compute_kpis out)
     \<le> total (compute_kpis out)"
  unfolding compute_kpis_def by (simp, rule three_counts) auto

lemma compute_kpis_total: "total (compute_kpis out) = length out"
  by (simp add: compute_kpis_def)

text \<open>The divisor \<^verbatim>\<open>Math.max(1,total)\<close> is never 0, so the quotient is a finite number.\<close>

lemma kpis_divisor: "1 \<le> max 1 (length out) \<and> real (max 1 (length out)) \<noteq> 0"
proof -
  have "1 \<le> max 1 (length out)" by (rule max.cobounded1)
  then show ?thesis by linarith
qed

lemma compute_kpis_finite:
  "avgLatency (compute_kpis out)
     = Num (real_of_int (sum_list (map latency_ms out)) / real (max 1 (length out)))"
  using kpis_divisor[of out] by (simp add: compute_kpis_def js_divide_def foldl_latency del: of_nat_max)

lemma compute_kpis_empty: "avgLatency (compute_kpis []) = Num 0"
  by (simp add: compute_kpis_finite)

lemma compute_kpis_mean:
  "out \<noteq> [] \<Longrightarrow>
   avgLatency (compute_kpis out)
     = Num (real_of_int (sum_list (map latency_ms out)) / real (length out))"
  by (cases out) (simp_all add: compute_kpis_finite max_def)

lemma mean_bounds:
  assumes "out \<noteq> []" and "\<forall>r\<in>set out. 100 \<le> latency_ms r \<and> latency_ms r < 3100"
  shows "100 \<le> real_of_int (sum_list (map latency_ms out)) / real (length out) \<and>
         real_of_int (sum_list (map latency_ms out)) / real (length out) < 3100"
proof -
  let ?n = "length out" and ?S = "sum_list (map latency_ms out)"
  have n: "0 < ?n" using assms(1) by simp
  have "100 * int ?n \<le> ?S"
    using assms(2) by (intro sum_list_lower) simp
  then have lo: "100 * real ?n \<le> real_of_int ?S"
    by (metis of_int_le_iff of_int_mult of_int_numeral of_int_of_nat_eq)
  have "\<forall>r\<in>set out. latency_ms r \<le> 3099" using assms(2) by auto
  then have "?S \<le> 3099 * int ?n" by (rule sum_list_upper)
  then have "real_of_int ?S \<le> 3099 * real ?n"
    by (metis of_int_le_iff of_int_mult of_int_numeral of_int_of_nat_eq)
  moreover have "3099 * real ?n < 3100 * real ?n" using n by simp
  ultimately have hi: "real_of_int ?S < 3100 * real ?n" by linarith
  show ?thesis
    using lo hi n by (simp add: le_divide_eq divide_less_eq)
qed

lemma apply_filters_none: "\<not> truthy c \<Longrightarrow> \<not> truthy st \<Longrightarrow> apply_filters up c st rows = rows"
  by (simp add: apply_filters_def)

lemma api_mcp_query_kpis:
  assumes "\<not> truthy mcp_url" and "authenticated so" and "resource b = Some ''kpis''"
  shows "api_mcp_query up mcp_url mcp_key upstream rows so (Some b) w =
           (Reply 200 (Handled (Sourced ''mock-mcp'' (Kpis (compute_kpis
              (apply_filters up (case filters b of None \<Rightarrow> None | Some f \<Rightarrow> f_country f)
                             (case filters b of None \<Rightarrow> None | Some f \<Rightarrow> f_status f) rows))))), w)"
  using assms
  by (simp add: api_mcp_query_def requireAuth_def mcp_handler_def env_or_null_def mock_mcp_def Let_def)

text \<open>
  Claim C3. Let the dataset be seeded from any random source with values in \<open>[0, 1)\<close>.
  With no \<^verbatim>\<open>MCP_URL\<close>, an authenticated \<^verbatim>\<open>POST /api/mcp/query\<close> with resource \<^verbatim>\<open>kpis\<close> answers
  with the KPIs of the filtered rows under the source \<^verbatim>\<open>mock-mcp\<close>. For every pair of
  filters, \<open>delivered + failed + blocked \<le> total\<close> and \<open>total\<close> is the number of filtered
  rows; with no filter, \<open>total\<close> is the size of the dataset, 500. The division never has
  the divisor 0: \<open>avgLatency\<close> is never \<^verbatim>\<open>NaN\<close> or an infinity. When \<open>total > 0\<close> it is the
  number that is the sum of the latencies divided by their count, and lies in
  \<open>[100, 3100)\<close>; when \<open>total = 0\<close> it is the number 0.
\<close>

theorem kpis_bounds:
  assumes "\<forall>k. 0 \<le> rnd k \<and> rnd k < 1"
  shows "(\<not> truthy mcp_url \<and> authenticated so \<and> resource b = Some ''kpis'' \<and>
          (filters b = Some \<lparr>f_country = c, f_status = st\<rparr> \<or>
           filters b = None \<and> c = None \<and> st = None) \<longrightarrow>
            api_mcp_query up mcp_url mcp_key upstream (smsData rnd clk) so (Some b) w =
              (Reply 200 (Handled (Sourced ''mock-mcp''
                 (Kpis (compute_kpis (apply_filters up c st (smsData rnd clk)))))), w)) \<and>
         delivered (compute_kpis (apply_filters up c st (smsData rnd clk)))
           + failed (compute_kpis (apply_filters up c st (smsData rnd clk)))
           + blocked (compute_kpis (apply_filters up c st (smsData rnd clk)))
           \<le> total (compute_kpis (apply_filters up c st (smsData rnd clk))) \<and>
         total (compute_kpis (apply_filters up c st (smsData rnd clk)))
           = length (apply_filters up c st (smsData rnd clk)) \<and>
         (\<not> truthy c \<and> \<not> truthy st \<longrightarrow>
            total (compute_kpis (apply_filters up c st (smsData rnd clk))) = length (smsData rnd clk)) \<and>
         length (smsData rnd clk) = 500 \<and>
         avgLatency (compute_kpis (apply_filters up c st (smsData rnd clk))) \<noteq> NaN \<and>
         avgLatency (compute_kpis (apply_filters up c st (smsData rnd clk))) \<noteq> Infinity \<and>
         avgLatency (compute_kpis (apply_filters up c st (smsData rnd clk))) \<noteq> MinusInfinity \<and>
         (0 < total (compute_kpis (apply_filters up c st (smsData rnd clk))) \<longrightarrow>
            avgLatency (compute_kpis (apply_filters up c st (smsData rnd clk)))
              = Num (real_of_int (sum_list (map latency_ms (apply_filters up c st (smsData rnd clk))))
                      / real (length (apply_filters up c st (smsData rnd clk)))) \<and>
            100 \<le> real_of_int (sum_list (map latency_ms (apply_filters up c st (smsData rnd clk))))
                      / real (length (apply_filters up c st (smsData rnd clk))) \<and>
            real_of_int (sum_list (map latency_ms (apply_filters up c st (smsData rnd clk))))
              / real (length (apply_filters up c st (smsData rnd clk))) < 3100) \<and>
         (total (compute_kpis (apply_filters up c st (smsData rnd clk))) = 0 \<longrightarrow>
            avgLatency (compute_kpis (apply_filters up c st (smsData rnd clk))) = Num 0)"
proof -
  let ?data = "smsData rnd clk"
  let ?out = "apply_filters up c st ?data"
  have r: "\<forall>r\<in>set ?out. 100 \<le> latency_ms r \<and> latency_ms r < 3100"
    using smsData_latency[OF assms] set_apply_filters[of up c st ?data] by blast
  have a: "\<not> truthy mcp_url \<and> authenticated so \<and> resource b = Some ''kpis'' \<and>
          (filters b = Some \<lparr>f_country = c, f_status = st\<rparr> \<or>
           filters b = None \<and> c = None \<and> st = None) \<longrightarrow>
            api_mcp_query up mcp_url mcp_key upstream ?data so (Some b) w =
              (Reply 200 (Handled (Sourced ''mock-mcp'' (Kpis (compute_kpis ?out)))), w)"
    using api_mcp_query_kpis[of mcp_url so b up mcp_key upstream ?data w] by auto
  have e: "\<not> truthy c \<and> \<not> truthy st \<longrightarrow> total (compute_kpis ?out) = length ?data"
    by (simp add: compute_kpis_total apply_filters_none)
  have f1: "avgLatency (compute_kpis ?out) \<noteq> NaN"
    and f2: "avgLatency (compute_kpis ?out) \<noteq> Infinity"
    and f3: "avgLatency (compute_kpis ?out) \<noteq> MinusInfinity"
    by (simp_all add: compute_kpis_finite)
  have m: "0 < total (compute_kpis ?out) \<longrightarrow>
            avgLatency (compute_kpis ?out)
              = Num (real_of_int (sum_list (map latency_ms ?out)) / real (length ?out)) \<and>
            100 \<le> real_of_int (sum_list (map latency_ms ?out)) / real (length ?out) \<and>
            real_of_int (sum_list (map latency_ms ?out)) / real (length ?out) < 3100"
  proof
    assume "0 < total (compute_kpis ?out)"
    then have ne: "?out \<noteq> []" by (simp add: compute_kpis_total)
    show "avgLatency (compute_kpis ?out)
              = Num (real_of_int (sum_list (map latency_ms ?out)) / real (length ?out)) \<and>
            100 \<le> real_of_int (sum_list (map latency_ms ?out)) / real (length ?out) \<and>
            real_of_int (sum_list (map latency_ms ?out)) / real (length ?out) < 3100"
      using mean_bounds[OF ne r] compute_kpis_mean[OF ne] by simp
  qed
  have z: "total (compute_kpis ?out) = 0 \<longrightarrow> avgLatency (compute_kpis ?out) = Num 0"
    by (simp add: compute_kpis_total compute_kpis_empty)
  from a compute_kpis_counts[of ?out] compute_kpis_total[of ?out] e smsData_length[of rnd clk]
    f1 f2 f3 m z
  show ?thesis by (intro conjI)
qed


lemma toUpperCase_zz: "toUpperCase up (units ''zz'') = units ''ZZ''"
  by (simp add: toUpperCase_def units_def upper_unit_def)

lemma seed_row_zero_country: "country (seed_row rnd_zero clk i) = ''US''"
  by (simp add: seed_row_def rnd_zero_def countries_def)

lemma seed_row_zero_latency: "latency_ms (seed_row rnd_zero clk i) = 100"
  by (simp add: seed_row_def rnd_zero_def)

lemma no_zz_rows: "apply_filters up (Some (units ''zz'')) None (smsData rnd_zero clk) = []"
proof -
  have "units ''US'' \<noteq> units ''ZZ''" by (simp add: units_def)
  then show ?thesis
    by (simp add: apply_filters_def truthy_def smsData_def toUpperCase_zz filter_empty_conv
        seed_row_zero_country) (simp add: units_def)
qed

lemma latency_sum_zero: "sum_list (map latency_ms (smsData rnd_zero clk)) = 50000"
proof -
  have "map latency_ms (smsData rnd_zero clk) = map (\<lambda>i. 100) [0..<500]"
    by (simp add: smsData_def seed_row_zero_latency)
  then show ?thesis by (simp add: sum_list_triv)
qed

theorem kpis_bounds_witness:
  "(\<forall>k. 0 \<le> rnd_zero k \<and> rnd_zero k < 1) \<and>
   \<not> truthy (None :: string option) \<and> authenticated some_session \<and>
   resource kpi_body = Some ''kpis'' \<and>
   filters kpi_body = Some \<lparr>f_country = None, f_status = None\<rparr> \<and>
   api_mcp_query plain_up None None up500 (smsData rnd_zero clock_zero) some_session (Some kpi_body)
       (world0 0)
     = (Reply 200 (Handled (Sourced ''mock-mcp'' (Kpis (compute_kpis (smsData rnd_zero clock_zero))))),
        world0 0) \<and>
   delivered (compute_kpis (smsData rnd_zero clock_zero))
     + failed (compute_kpis (smsData rnd_zero clock_zero))
     + blocked (compute_kpis (smsData rnd_zero clock_zero))
     \<le> total (compute_kpis (smsData rnd_zero clock_zero)) \<and>
   total (compute_kpis (smsData rnd_zero clock_zero)) = 500 \<and>
   avgLatency (compute_kpis (smsData rnd_zero clock_zero)) \<noteq> NaN \<and>
   avgLatency (compute_kpis (smsData rnd_zero clock_zero)) = Num 100 \<and>
   total (compute_kpis (apply_filters plain_up (Some (units ''zz'')) None (smsData rnd_zero clock_zero))) = 0 \<and>
   avgLatency (compute_kpis (apply_filters plain_up (Some (units ''zz'')) None (smsData rnd_zero clock_zero)))
     = Num 0"
proof -
  have h: "\<forall>k. 0 \<le> rnd_zero k \<and> rnd_zero k < 1" by (simp add: rnd_zero_def)
  have au: "authenticated some_session" by (simp add: authenticated_def some_session_def)
  have f: "apply_filters plain_up None None (smsData rnd_zero clock_zero) = smsData rnd_zero clock_zero"
    by (simp add: apply_filters_none truthy_def)
  have t: "\<not> truthy (None :: string option)" and t': "\<not> truthy (None :: ustring option)"
    by (simp_all add: truthy_def)
  have b: "resource kpi_body = Some ''kpis''"
    "filters kpi_body = Some \<lparr>f_country = None, f_status = None\<rparr>"
    by (simp_all add: kpi_body_def)
  note th = kpis_bounds[OF h, where up = plain_up and mcp_url = None and so = some_session
      and b = kpi_body and c = None and st = None and mcp_key = None and upstream = up500
      and clk = clock_zero and w = "world0 0"]
  note th0 = kpis_bounds[OF h, where up = plain_up and mcp_url = None and so = some_session
      and b = kpi_body and c = "Some (units ''zz'')" and st = None and mcp_key = None
      and upstream = up500 and clk = clock_zero and w = "world0 0"]
  have z: "total (compute_kpis (apply_filters plain_up (Some (units ''zz'')) None (smsData rnd_zero clock_zero))) = 0"
    by (simp add: no_zz_rows compute_kpis_total)
  have z2: "avgLatency (compute_kpis (apply_filters plain_up (Some (units ''zz'')) None (smsData rnd_zero clock_zero)))
              = Num 0"
    using th0 z by blast
  note th' = th[unfolded f]
  have r: "api_mcp_query plain_up None None up500 (smsData rnd_zero clock_zero) some_session (Some kpi_body)
       (world0 0)
     = (Reply 200 (Handled (Sourced ''mock-mcp'' (Kpis (compute_kpis (smsData rnd_zero clock_zero))))),
        world0 0)"
    using th' t au b by blast
  have cnt: "delivered (compute_kpis (smsData rnd_zero clock_zero))
     + failed (compute_kpis (smsData rnd_zero clock_zero))
     + blocked (compute_kpis (smsData rnd_zero clock_zero))
     \<le> total (compute_kpis (smsData rnd_zero clock_zero))"
    using th' by blast
  have p: "total (compute_kpis (smsData rnd_zero clock_zero)) = 500"
    using th' t' by metis
  then have pos: "0 < total (compute_kpis (smsData rnd_zero clock_zero))" by simp
  have nn: "avgLatency (compute_kpis (smsData rnd_zero clock_zero)) \<noteq> NaN"
    using th' by blast
  have av: "avgLatency (compute_kpis (smsData rnd_zero clock_zero))
              = Num (real_of_int (sum_list (map latency_ms (smsData rnd_zero clock_zero)))
                      / real (length (smsData rnd_zero clock_zero)))"
    using th' pos by blast
  have av': "avgLatency (compute_kpis (smsData rnd_zero clock_zero)) = Num 100"
    unfolding av by (simp add: latency_sum_zero smsData_length)
  from h t au b r cnt p nn av' z z2 show ?thesis by (intro conjI)
qed

lemma mcp_handler_external:
  assumes "truthy mcp_url"
  shows "mcp_handler up mcp_url mcp_key upstream rows (Some b) w =
     (let rq = \<lparr>url = the mcp_url,
                headers = (''Content-Type'', ''application/json'') # bearer (env_or_null mcp_key),
                payload = \<lparr>prompt = prompt b, resource = resource b, filters = filters b\<rparr>\<rparr>
      in (case upstream rq of
            Rejected e \<Rightarrow> Reply 502 (Handled (BridgeFailed ''MCP bridge failed'' (exn_text e)))
          | Resolved resp \<Rightarrow>
              (case json resp of
                 Inl e \<Rightarrow> Reply 502 (Handled (BridgeFailed ''MCP bridge failed'' (exn_text e)))
               | Inr d \<Rightarrow> Reply 200 (Handled (Sourced ''proximus-mcp'' (Remote d)))),
          w\<lparr>fetched := fetched w @ [rq]\<rparr>))"
  using assms
  by (cases mcp_url)
     (auto simp: mcp_handler_def env_or_null_def truthy_def Let_def
           split: fetch_result.splits sum.splits)

lemma bridge_handler_non_success:
  assumes "truthy mcp_url" and "upstream rq = Resolved resp" and "\<not> ok resp"
    and "rq = \<lparr>url = the mcp_url,
                 headers = [(''Content-Type'', ''application/json''), (''Accept'', ''application/json'')]
                           @ bearer (env_or_null mcp_key),
                 payload = b\<rparr>"
  shows "\<exists>d. fst (bridge_handler mcp_url mcp_key upstream (Some b) w)
           = Reply 502 (Handled (BridgeFailure ''MCP bridge failed'' (Stringified d)))"
  using assms
  by (cases mcp_url) (auto simp: bridge_handler_def env_or_null_def truthy_def Let_def)

text \<open>
  Claim C2. \<^verbatim>\<open>MCP_URL\<close> is set and the upstream answers with status 500 and a JSON body.
  The claim has the call fail with 502. The single-file server never looks at the status
  of the upstream's response: it answers 200 with that body under the source
  \<^verbatim>\<open>proximus-mcp\<close>. (The request it sent carries the three fields of the body, and no
  \<^verbatim>\<open>Authorization\<close> header when no key is set.)
\<close>

theorem non_success_upstream_passed_on:
  "api_mcp_query up (Some mcp_example_url) None up500 rows some_session (Some kpi_body) (world0 0)
     = (Reply 200 (Handled (Sourced ''proximus-mcp'' (Remote [(''error'', ''upstream exploded'')]))),
        (world0 0)\<lparr>fetched :=
           [\<lparr>url = mcp_example_url, headers = [(''Content-Type'', ''application/json'')],
             payload = kpi_body\<rparr>]\<rparr>)"
proof -
  have t: "truthy (Some mcp_example_url)" by (simp add: truthy_def mcp_example_url_def)
  have au: "authenticated some_session" by (simp add: authenticated_def some_session_def)
  have k: "\<lparr>prompt = prompt kpi_body, resource = resource kpi_body, filters = filters kpi_body\<rparr>
             = kpi_body" by (simp add: kpi_body_def)
  show ?thesis
    using au
    by (simp add: api_mcp_query_def requireAuth_def mcp_handler_external[OF t] k up500_def
        bearer_def env_or_null_def truthy_def world0_def)
qed


section \<open>Protected routes without a session\<close>

text \<open>
  Claim C7. Without an authenticated session, \<^verbatim>\<open>requireAuth\<close> answers 401
  \<^verbatim>\<open>{ error: 'Unauthorized' }\<close> and leaves the world as it was, whatever handler it guards:
  \<^verbatim>\<open>GET /api/sms\<close> selects no rows, \<^verbatim>\<open>GET /api/sms/stream\<close> sets no timer and registers
  no listener (the runtime's step for such a request only moves the clock and counts the
  connection), and \<^verbatim>\<open>POST /api/mcp/query\<close> sends nothing upstream, in the single-file
  server and in \<^verbatim>\<open>server.js\<close>.
\<close>

theorem unauthenticated_rejected:
  "(\<not> authenticated so \<longrightarrow>
      requireAuth so handler w = (Reply 401 (Error ''Unauthorized''), w) \<and>
      api_sms up rows so q w = (Reply 401 (Error ''Unauthorized''), w) \<and>
      api_sms_stream so c w = (Reply 401 (Error ''Unauthorized''), w) \<and>
      api_mcp_query up mcp_url mcp_key upstream rows so b w = (Reply 401 (Error ''Unauthorized''), w) \<and>
      step rows w (dt, Open so) = w\<lparr>clock := clock w + int dt, next_conn := Suc (next_conn w)\<rparr>) \<and>
   (user s = None \<longrightarrow>
      srv_mcp_query mcp_url mcp_key upstream s b w = (Reply 401 (Error ''Unauthorized''), w))"
  by (simp add: requireAuth_def api_sms_def api_sms_stream_def api_mcp_query_def step_def
      srv_mcp_query_def requireAuth_srv_def)

theorem unauthenticated_rejected_witness:
  "\<not> authenticated None \<and>
   api_sms plain_up sample_rows None us5 (world0 0 :: flat_json world)
     = (Reply 401 (Error ''Unauthorized''), world0 0) \<and>
   api_sms_stream None 0 (world0 0 :: flat_json world) = (Reply 401 (Error ''Unauthorized''), world0 0) \<and>
   api_mcp_query plain_up (Some mcp_example_url) None up500 sample_rows None (Some kpi_body) (world0 0)
     = (Reply 401 (Error ''Unauthorized''), world0 0) \<and>
   timers (step sample_rows (world0 0 :: flat_json world) (0, Open None)) = [] \<and>
   user \<lparr>user = None\<rparr> = None \<and>
   srv_mcp_query (Some mcp_example_url) None up500 \<lparr>user = None\<rparr> (Some kpi_body) (world0 0)
     = (Reply 401 (Error ''Unauthorized''), world0 0)"
proof -
  have n: "\<not> authenticated None" by (simp add: authenticated_def)
  note th = unauthenticated_rejected[where up = plain_up and so = None and rows = sample_rows and q = us5
      and w = "world0 0 :: flat_json world" and c = 0 and mcp_url = "Some mcp_example_url"
      and mcp_key = None and upstream = up500 and b = "Some kpi_body" and dt = 0
      and s = "\<lparr>user = None\<rparr>" and handler = "stream_handler 0"]
  have tm: "timers (world0 0 :: flat_json world) = []" by (simp add: world0_def)
  show ?thesis using n th by (simp add: tm)
qed

section \<open>The stream: timers and closing\<close>

lemma stream_inv_world0: "stream_inv (world0 t0)"
  by (simp add: stream_inv_def world0_def)

lemma stream_inv_tick:
  assumes "stream_inv w"
  shows "stream_inv (w\<lparr>clock := clock w + int dt\<rparr>)"
proof -
  have "\<forall>f\<in>set (frames w). fr_at f \<le> clock w + int dt"
    using assms by (fastforce simp: stream_inv_def)
  then show ?thesis using assms by (simp add: stream_inv_def)
qed

lemma stream_open_unauth:
  "\<not> authenticated so \<Longrightarrow> snd (api_sms_stream so c w) = w"
  by (simp add: api_sms_stream_def requireAuth_def)

lemma stream_open_auth:
  "authenticated so \<Longrightarrow>
   snd (api_sms_stream so c w) =
     w\<lparr>timers := timers w @ [\<lparr>t_id = next_timer w, t_conn = c, t_every = 1500,
                               t_due = clock w + 1500\<rparr>],
       next_timer := Suc (next_timer w),
       listeners := listeners w @ [(c, next_timer w)]\<rparr>"
  by (simp add: api_sms_stream_def requireAuth_def stream_handler_def setInterval_def on_close_def)

lemma stream_inv_open:
  assumes "stream_inv w"
  shows "stream_inv ((snd (api_sms_stream so (next_conn w) w))\<lparr>next_conn := Suc (next_conn w)\<rparr>)"
proof (cases "authenticated so")
  case False
  have a: "\<forall>t\<in>set (timers w). t_conn t < Suc (next_conn w)"
    using assms by (fastforce simp: stream_inv_def)
  have b: "\<forall>c tc. (c, tc) \<in> set (closed w) \<longrightarrow> c < Suc (next_conn w)"
    using assms by (fastforce simp: stream_inv_def)
  show ?thesis using assms a b by (simp add: stream_open_unauth[OF False] stream_inv_def)
next
  case True
  have a: "\<forall>t\<in>set (timers w). t_conn t < Suc (next_conn w)"
    using assms by (fastforce simp: stream_inv_def)
  have b: "\<forall>c tc. (c, tc) \<in> set (closed w) \<longrightarrow> c < Suc (next_conn w)"
    using assms by (fastforce simp: stream_inv_def)
  have d: "next_conn w \<notin> t_conn ` set (timers w)"
    using assms by (fastforce simp: stream_inv_def)
  have c: "\<forall>tc. (next_conn w, tc) \<notin> set (closed w)"
    using assms by (fastforce simp: stream_inv_def)
  show ?thesis using assms a b c d
    by (simp add: stream_open_auth[OF True] stream_inv_def)
qed

lemma conn_reschedule:
  "(t_conn \<circ> (\<lambda>x. if t_id x = h then x\<lparr>t_due := k + t_every x\<rparr> else x)) = t_conn"
  by (rule ext) simp

lemma fire_cases:
  "fire rows h r uuid w = w \<or>
   (\<exists>t\<in>set (timers w). \<exists>row.
      fire rows h r uuid w =
        w\<lparr>frames := \<lparr>fr_conn = t_conn t, fr_at = clock w, fr_id = uuid, fr_row = row\<rparr> # frames w,
          timers := map (\<lambda>x. if t_id x = h then x\<lparr>t_due := clock w + t_every x\<rparr> else x)
                      (timers w)\<rparr>)"
proof (cases "find (\<lambda>t. t_id t = h) (timers w)")
  case None
  then show ?thesis by (simp add: fire_def)
next
  case (Some t)
  then have tin: "t \<in> set (timers w)"
    by (auto simp: find_Some_iff)
  show ?thesis
  proof (cases "clock w < t_due t")
    case True
    then show ?thesis using Some by (simp add: fire_def)
  next
    case False
    then have "fire rows h r uuid w =
        w\<lparr>frames := \<lparr>fr_conn = t_conn t, fr_at = clock w, fr_id = uuid,
                     fr_row = map_option (\<lambda>x. x\<lparr>timestamp := clock w\<rparr>)
                        (if 0 \<le> \<lfloor>r * real (length rows)\<rfloor> \<and> \<lfloor>r * real (length rows)\<rfloor> < int (length rows)
                         then Some (rows ! nat \<lfloor>r * real (length rows)\<rfloor>) else None)\<rparr> # frames w,
          timers := map (\<lambda>x. if t_id x = h then x\<lparr>t_due := clock w + t_every x\<rparr> else x)
                      (timers w)\<rparr>"
      using Some by (simp add: fire_def send_def Let_def)
    then show ?thesis using tin by blast
  qed
qed

lemma stream_inv_fire:
  assumes "stream_inv w"
  shows "stream_inv (fire rows h r uuid w)"
proof -
  consider (same) "fire rows h r uuid w = w"
    | (fired) t row where "t \<in> set (timers w)"
        "fire rows h r uuid w =
           w\<lparr>frames := \<lparr>fr_conn = t_conn t, fr_at = clock w, fr_id = uuid, fr_row = row\<rparr> # frames w,
             timers := map (\<lambda>x. if t_id x = h then x\<lparr>t_due := clock w + t_every x\<rparr> else x)
                         (timers w)\<rparr>"
    using fire_cases[of rows h r uuid w] by blast
  then show ?thesis
  proof cases
    case same
    then show ?thesis using assms by simp
  next
    case fired
    let ?ts = "map (\<lambda>x. if t_id x = h then x\<lparr>t_due := clock w + t_every x\<rparr> else x) (timers w)"
    have nc: "\<forall>tc. (t_conn t, tc) \<notin> set (closed w)"
      using assms fired(1) by (simp add: stream_inv_def)
    have i1: "\<forall>t\<in>set ?ts. t_conn t < next_conn w"
      using assms by (auto simp: stream_inv_def)
    have i2: "\<forall>t\<in>set ?ts. (t_conn t, t_id t) \<in> set (listeners w)"
      using assms by (auto simp: stream_inv_def)
    have i3: "\<forall>t\<in>set ?ts. \<forall>tc. (t_conn t, tc) \<notin> set (closed w)"
      using assms by (auto simp: stream_inv_def)
    have i4: "distinct (map t_conn ?ts)"
      using assms by (simp add: stream_inv_def conn_reschedule)
    show ?thesis
      unfolding fired(2) stream_inv_def
      using assms nc i1 i2 i3 i4 by (simp add: stream_inv_def)
  qed
qed


lemma clear_listeners_fields:
  "clock (foldl (\<lambda>v (c', h). if c' = c then clearInterval h v else v) w ls) = clock w \<and>
   listeners (foldl (\<lambda>v (c', h). if c' = c then clearInterval h v else v) w ls) = listeners w \<and>
   frames (foldl (\<lambda>v (c', h). if c' = c then clearInterval h v else v) w ls) = frames w \<and>
   next_conn (foldl (\<lambda>v (c', h). if c' = c then clearInterval h v else v) w ls) = next_conn w \<and>
   closed (foldl (\<lambda>v (c', h). if c' = c then clearInterval h v else v) w ls) = closed w \<and>
   timers (foldl (\<lambda>v (c', h). if c' = c then clearInterval h v else v) w ls)
     = filter (\<lambda>t. (c, t_id t) \<notin> set ls) (timers w)"
proof (induction ls arbitrary: w)
  case Nil
  then show ?case by simp
next
  case (Cons a ls)
  obtain c' h where a: "a = (c', h)" by (cases a)
  show ?case
  proof (cases "c' = c")
    case True
    have "filter (\<lambda>t. (c, t_id t) \<notin> set ls) (filter (\<lambda>t. t_id t \<noteq> h) (timers w))
            = filter (\<lambda>t. (c, t_id t) \<notin> set ((c, h) # ls)) (timers w)"
      by (auto intro: filter_cong)
    then show ?thesis
      using Cons.IH[of "clearInterval h w"] True a by (simp add: clearInterval_def)
  next
    case False
    then show ?thesis using Cons.IH[of w] a by simp
  qed
qed

lemma stream_inv_close:
  assumes "stream_inv w"
  shows "stream_inv (emit_close c w)"
proof (cases "c < next_conn w \<and> c \<notin> fst ` set (closed w)")
  case False
  then show ?thesis using assms by (auto simp: emit_close_def)
next
  case True
  let ?w1 = "foldl (\<lambda>v (c', h). if c' = c then clearInterval h v else v) w (listeners w)"
  let ?ts = "filter (\<lambda>t. (c, t_id t) \<notin> set (listeners w)) (timers w)"
  note f = clear_listeners_fields[of c w "listeners w"]
  have e: "emit_close c w = ?w1\<lparr>closed := (c, clock w) # closed w\<rparr>"
    using True by (simp add: emit_close_def Let_def f)
  have gone: "\<forall>t\<in>set ?ts. t_conn t \<noteq> c"
    using assms by (auto simp: stream_inv_def)
  have i1: "\<forall>t\<in>set ?ts. t_conn t < next_conn w"
    using assms by (simp add: stream_inv_def)
  have i2: "\<forall>t\<in>set ?ts. (t_conn t, t_id t) \<in> set (listeners w)"
    using assms by (simp add: stream_inv_def)
  have i3: "\<forall>t\<in>set ?ts. \<forall>tc. (t_conn t, tc) \<notin> set ((c, clock w) # closed w)"
    using assms gone by (simp add: stream_inv_def)
  have i4: "distinct (map t_conn ?ts)"
    using assms by (simp add: stream_inv_def distinct_map_filter)
  have i5: "\<forall>f\<in>set (frames w). fr_at f \<le> clock w"
    using assms by (simp add: stream_inv_def)
  have i6: "\<forall>c' tc. (c', tc) \<in> set ((c, clock w) # closed w) \<longrightarrow> c' < next_conn w"
    using assms True by (auto simp: stream_inv_def)
  have i7: "\<forall>c' tc. (c', tc) \<in> set ((c, clock w) # closed w) \<longrightarrow>
         (\<forall>f\<in>set (frames w). fr_conn f = c' \<longrightarrow> fr_at f \<le> tc)"
    using assms i5 by (auto simp: stream_inv_def)
  show ?thesis
    unfolding e stream_inv_def using i1 i2 i3 i4 i5 i6 i7 by (simp add: f)
qed

lemma stream_inv_step: "stream_inv w \<Longrightarrow> stream_inv (step rows w e)"
proof -
  assume a: "stream_inv w"
  let ?w1 = "w\<lparr>clock := clock w + int (fst e)\<rparr>"
  have i: "stream_inv ?w1" using a by (rule stream_inv_tick)
  show ?thesis
  proof (cases "snd e")
    case (Open so)
    then show ?thesis using stream_inv_open[OF i, of so] by (simp add: step_def)
  next
    case (Fire h r uuid)
    then show ?thesis using stream_inv_fire[OF i, of rows h r uuid] by (simp add: step_def)
  next
    case (Close c)
    then show ?thesis using stream_inv_close[OF i, of c] by (simp add: step_def)
  qed
qed

lemma stream_inv_run: "stream_inv w \<Longrightarrow> stream_inv (run rows w evs)"
  unfolding run_def by (induction evs arbitrary: w) (simp_all add: stream_inv_step)

lemma distinct_conn_at_most_one:
  "distinct (map t_conn ts) \<Longrightarrow> length (filter (\<lambda>t. t_conn t = c) ts) \<le> 1"
proof (induction ts)
  case Nil
  then show ?case by simp
next
  case (Cons a ts)
  show ?case
  proof (cases "t_conn a = c")
    case True
    have "t_conn a \<notin> t_conn ` set ts" using Cons.prems by simp
    then have "\<forall>x\<in>set ts. t_conn x \<noteq> c" using True by (metis imageI)
    then have "filter (\<lambda>t. t_conn t = c) ts = []"
      by (simp add: filter_empty_conv)
    then show ?thesis using True by simp
  next
    case False
    then show ?thesis using Cons by simp
  qed
qed


lemma closed_stays_closed:
  assumes "(c, tc) \<in> set (closed w)"
  shows "(c, tc) \<in> set (closed (step rows w e))"
proof (cases "snd e")
  case (Open so)
  then show ?thesis
    using assms
    by (cases "authenticated so") (simp_all add: step_def stream_open_unauth stream_open_auth)
next
  case (Fire h r uuid)
  then show ?thesis
    using assms fire_cases[of rows h r uuid "w\<lparr>clock := clock w + int (fst e)\<rparr>"]
    by (auto simp: step_def)
next
  case (Close c')
  then show ?thesis
    using assms by (simp add: step_def emit_close_def Let_def clear_listeners_fields)
qed

lemma closed_conn_gets_no_frame:
  assumes "stream_inv w" and "(c, tc) \<in> set (closed w)"
  shows "filter (\<lambda>f. fr_conn f = c) (frames (step rows w e)) = filter (\<lambda>f. fr_conn f = c) (frames w)"
proof (cases "snd e")
  case (Open so)
  then show ?thesis
    by (cases "authenticated so") (simp_all add: step_def stream_open_unauth stream_open_auth)
next
  case (Fire h r uuid)
  let ?w1 = "w\<lparr>clock := clock w + int (fst e)\<rparr>"
  have n: "\<forall>t\<in>set (timers ?w1). t_conn t \<noteq> c"
    using assms by (auto simp: stream_inv_def)
  show ?thesis
    using Fire fire_cases[of rows h r uuid ?w1] n by (auto simp: step_def)
next
  case (Close c')
  then show ?thesis
    by (simp add: step_def emit_close_def Let_def clear_listeners_fields)
qed

lemma closed_conn_stays_silent:
  assumes "stream_inv w" and "(c, tc) \<in> set (closed w)"
  shows "filter (\<lambda>f. fr_conn f = c) (frames (run rows w later)) = filter (\<lambda>f. fr_conn f = c) (frames w)"
  using assms
proof (induction later arbitrary: w)
  case Nil
  then show ?case by (simp add: run_def)
next
  case (Cons e later)
  have "filter (\<lambda>f. fr_conn f = c) (frames (run rows (step rows w e) later))
          = filter (\<lambda>f. fr_conn f = c) (frames (step rows w e))"
    using Cons.prems by (intro Cons.IH stream_inv_step closed_stays_closed)
  then show ?case
    using closed_conn_gets_no_frame[OF Cons.prems, of rows e] by (simp add: run_def)
qed

text \<open>
  Claim C8. In every world reached from the initial one by events of the runtime (requests
  to \<^verbatim>\<open>GET /api/sms/stream\<close>, timers firing, connections closing, each after any delay): a
  connection that has closed, at time \<open>tc\<close>, owns no timer any more; every frame written on
  it is dated \<open>tc\<close> or earlier, so none is written after \<open>tc\<close>, let alone after
  \<open>tc + 1500\<close>; whatever events follow, its frames stay the same; and every connection,
  closed or not, owns at most one timer.
\<close>

theorem closed_stream_is_silent:
  assumes "w = run rows (world0 t0) evs"
  shows "(\<forall>c tc. (c, tc) \<in> set (closed w) \<longrightarrow>
            (\<forall>t\<in>set (timers w). t_conn t \<noteq> c) \<and>
            (\<forall>f\<in>set (frames w). fr_conn f = c \<longrightarrow> fr_at f \<le> tc) \<and>
            (\<forall>later. filter (\<lambda>f. fr_conn f = c) (frames (run rows w later))
                      = filter (\<lambda>f. fr_conn f = c) (frames w))) \<and>
         (\<forall>c. length (filter (\<lambda>t. t_conn t = c) (timers w)) \<le> 1)"
proof -
  have i: "stream_inv w"
    unfolding assms by (rule stream_inv_run) (rule stream_inv_world0)
  have a: "\<forall>t\<in>set (timers w). t_conn t \<noteq> c" if "(c, tc) \<in> set (closed w)" for c tc
    using i that unfolding stream_inv_def by blast
  have b: "\<forall>f\<in>set (frames w). fr_conn f = c \<longrightarrow> fr_at f \<le> tc"
    if "(c, tc) \<in> set (closed w)" for c tc
    using i that unfolding stream_inv_def by blast
  have d: "length (filter (\<lambda>t. t_conn t = c) (timers w)) \<le> 1" for c
    using i by (intro distinct_conn_at_most_one) (simp add: stream_inv_def)
  show ?thesis
    using a b d closed_conn_stays_silent[OF i] by blast
qed


lemma run_stream_events:
  "closed (run sample_rows (world0 0 :: flat_json world) stream_events) = [(0, 3200)] \<and>
   timers (run sample_rows (world0 0 :: flat_json world) stream_events) = [] \<and>
   map fr_at (frames (run sample_rows (world0 0 :: flat_json world) stream_events)) = [3000, 1500] \<and>
   map fr_conn (frames (run sample_rows (world0 0 :: flat_json world) stream_events)) = [0, 0]"
  by (simp add: run_def stream_events_def step_def world0_def some_session_def authenticated_def
      stream_open_auth fire_def send_def emit_close_def clearInterval_def Let_def)


theorem closed_stream_is_silent_witness:
  "closed (run sample_rows (world0 0 :: flat_json world) stream_events) = [(0, 3200)] \<and>
   timers (run sample_rows (world0 0 :: flat_json world) stream_events) = [] \<and>
   map fr_at (frames (run sample_rows (world0 0 :: flat_json world) stream_events)) = [3000, 1500] \<and>
   map fr_conn (frames (run sample_rows (world0 0 :: flat_json world) stream_events)) = [0, 0] \<and>
   filter (\<lambda>f. fr_conn f = 0)
     (frames (run sample_rows (run sample_rows (world0 0 :: flat_json world) stream_events)
                [(1500, Fire 0 0 ''d''), (0, Open some_session), (1500, Fire 1 0 ''e'')]))
     = filter (\<lambda>f. fr_conn f = 0)
         (frames (run sample_rows (world0 0 :: flat_json world) stream_events)) \<and>
   length (filter (\<lambda>t. t_conn t = 0)
             (timers (run sample_rows (world0 0 :: flat_json world) stream_events))) \<le> 1"
proof -
  note ev = run_stream_events
  have c: "(0, 3200) \<in> set (closed (run sample_rows (world0 0 :: flat_json world) stream_events))"
    using ev by simp
  note th = closed_stream_is_silent[OF refl, of sample_rows 0 stream_events]
  show ?thesis using ev c th by blast
qed

end
